theory Spec2Isabelle
  imports Complex_Main "HOL-Library.AList" "HOL-Library.Sublist" "HOL-Library.Multiset"
    "HOL-Library.Log_Nat"
begin

section \<open>Fixture difficulty service: numeric core\<close>

text \<open>
  The service is the class \<open>FixtureDifficultyService\<close> of
  \<open>services/fixtureDifficultyService.ts\<close>: its strength cache, its scorer and
  \<open>getTeamUpcomingFixtures\<close>. The player history and \<open>getPlayerUpcomingFixtures\<close> are left out.

  In the scorer a JavaScript \<open>number\<close> is modelled as a \<open>real\<close>: arithmetic is exact,
  rounding is not modelled, and \<open>NaN\<close> and the infinities are not values of the model. The
  two scalings are modelled a second time with the rounding of the engine, as
  \<open>scaleTo100_double\<close> and \<open>scaleTo100Inverted_double\<close>. Team ids, gameweeks and counts are
  \<open>int\<close>.

  Names are the source's, but for \<open>calculateTeamStrengthsImpl\<close> (the private
  \<open>_calculateTeamStrengths\<close>), the fields \<open>idT\<close> and \<open>nameT\<close> of a team (\<open>id\<close> and \<open>name\<close>),
  \<open>fixtureId\<close> (the \<open>id\<close> of a fixture) and the argument \<open>count'\<close> (\<open>count\<close>).
\<close>

definition scaleTo100 :: "real \<Rightarrow> real \<Rightarrow> real \<Rightarrow> real" where
  "scaleTo100 v mn mx = (if mx = mn then 50 else ((v - mn) / (mx - mn)) * 100)"

definition scaleTo100Inverted :: "real \<Rightarrow> real \<Rightarrow> real \<Rightarrow> real" where
  "scaleTo100Inverted v mn mx = (if mx = mn then 50 else ((mx - v) / (mx - mn)) * 100)"

definition scaleToDifficulty :: "real \<Rightarrow> int" where
  "scaleToDifficulty rating =
     (if rating \<le> 20 then 1
      else if rating \<le> 40 then 2
      else if rating \<le> 60 then 3
      else if rating \<le> 80 then 4
      else 5)"

section \<open>The scalings in double precision\<close>

text \<open>
  The two scalings once more, as the engine computes them: a JavaScript \<open>number\<close> is an
  IEEE 754 binary64 value, and each of the four operations of
  \<open>((value - min) / (max - min)) * 100\<close> rounds its exact result to the nearest double, ties
  to even.

  A finite double is the rational it denotes; zero carries no sign. \<open>lg x\<close> is the binary
  exponent of a non-zero \<open>x\<close>, the \<open>e\<close> with \<open>2 ^ e \<le> \<bar>x\<bar> < 2 ^ (e + 1)\<close>; \<open>ulp x\<close> is
  the spacing of the doubles at \<open>x\<close>, \<open>2 ^ (e - 52)\<close> and \<open>2 ^ - 1074\<close> in the subnormal
  range; \<open>rnd x\<close> is the multiple of \<open>ulp x\<close> nearest to \<open>x\<close>. \<open>fl\<close> is \<open>rnd\<close> with the
  overflow: beyond \<open>maxDouble\<close> the engine answers an infinity, which is \<open>None\<close> here and is
  not followed further, as is a division by zero (the scalings compare \<open>max === min\<close>
  before they divide). \<open>NaN\<close> and the infinities are not arguments of the model.
\<close>

definition lg :: "rat \<Rightarrow> int" where
  "lg x = (let (p, q) = quotient_of \<bar>x\<bar>; e = bitlen p - bitlen q
           in if 2 powi e \<le> \<bar>x\<bar> then e else e - 1)"

definition expo :: "rat \<Rightarrow> int" where
  "expo x = (if x = 0 then - 1022 else max (lg x) (- 1022))"

definition ulp :: "rat \<Rightarrow> rat" where
  "ulp x = 2 powi (expo x - 52)"

definition roundHalfEven :: "rat \<Rightarrow> int" where
  "roundHalfEven y =
     (let f = \<lfloor>y\<rfloor>; r = y - of_int f
      in if r < 1 / 2 then f else if 1 / 2 < r then f + 1 else if even f then f else f + 1)"

definition rnd :: "rat \<Rightarrow> rat" where
  "rnd x = of_int (roundHalfEven (x / ulp x)) * ulp x"

definition maxDouble :: rat where
  "maxDouble = (2 ^ 53 - 1) * 2 ^ 971"

definition fl :: "rat \<Rightarrow> rat option" where
  "fl x = (let r = rnd x in if \<bar>r\<bar> \<le> maxDouble then Some r else None)"

definition fsub :: "rat \<Rightarrow> rat \<Rightarrow> rat option" where
  "fsub a b = fl (a - b)"

definition fmul :: "rat \<Rightarrow> rat \<Rightarrow> rat option" where
  "fmul a b = fl (a * b)"

definition fdiv :: "rat \<Rightarrow> rat \<Rightarrow> rat option" where
  "fdiv a b = (if b = 0 then None else fl (a / b))"

definition scaleTo100_double :: "rat \<Rightarrow> rat \<Rightarrow> rat \<Rightarrow> rat option" where
  "scaleTo100_double v mn mx =
     (if mx = mn then Some 50
      else case fsub v mn of None \<Rightarrow> None | Some a \<Rightarrow>
           (case fsub mx mn of None \<Rightarrow> None | Some d \<Rightarrow>
           (case fdiv a d of None \<Rightarrow> None | Some q \<Rightarrow> fmul q 100)))"

definition scaleTo100Inverted_double :: "rat \<Rightarrow> rat \<Rightarrow> rat \<Rightarrow> rat option" where
  "scaleTo100Inverted_double v mn mx =
     (if mx = mn then Some 50
      else case fsub mx v of None \<Rightarrow> None | Some a \<Rightarrow>
           (case fsub mx mn of None \<Rightarrow> None | Some d \<Rightarrow>
           (case fdiv a d of None \<Rightarrow> None | Some q \<Rightarrow> fmul q 100)))"

text \<open>The unit roundoff and half the smallest subnormal.\<close>

definition eps :: rat where
  "eps = 2 powi (- 53)"

definition eta :: rat where
  "eta = 2 powi (- 1075)"

definition is_double :: "rat \<Rightarrow> bool" where
  "is_double x \<longleftrightarrow> fl x = Some x"

text \<open>The literals \<open>0.1\<close> and \<open>0.4\<close>, as the doubles they are read as.\<close>

definition demoValue :: rat where
  "demoValue = rnd (1 / 10)"

definition demoMax :: rat where
  "demoMax = rnd (4 / 10)"

section \<open>Data model\<close>

text \<open>
  \<open>TeamStrength\<close>, \<open>FixtureDifficulty\<close> and \<open>FPLFixture\<close> are the interfaces of the
  source file. The entries of \<open>upcomingFixtures\<close> (gameweek, opponent, venue) are the
  record \<open>UpcomingFixture\<close>, and \<open>FixtureDifficulty\<close> extends it with the name and the four
  scores. Of \<open>FPLFixture\<close> the fields the service reads are kept. \<open>UnderstatTeam\<close> is a row of
  the backend's \<open>/api/understat/team-stats\<close> response and \<open>FPLTeam\<close> an entry of
  \<open>bootstrap-static\<close>'s \<open>teams\<close> (fields \<open>id\<close> and \<open>name\<close>).
\<close>

record TeamStrength =
  teamId :: int
  teamName :: string
  xGPer90 :: real
  xGAPer90 :: real
  gfPer90 :: real
  gaPer90 :: real
  xGPer90Home :: real
  xGAPer90Home :: real
  xGPer90Away :: real
  xGAPer90Away :: real
  gfPer90Home :: real
  gaPer90Home :: real
  gfPer90Away :: real
  gaPer90Away :: real
  homeAttackBonus :: real
  homeDefenseBonus :: real
  formFactor :: real

record UpcomingFixture =
  gameweek :: int
  opponentTeamId :: int
  isHome :: bool

record FixtureDifficulty = UpcomingFixture +
  opponentTeamName :: string
  attackDifficulty :: int
  defenseDifficulty :: int
  attackDifficultyRaw :: real
  defenseDifficultyRaw :: real

record FPLFixture =
  fixtureId :: int
  event :: int
  team_h :: int
  team_a :: int
  finished :: bool

record FPLTeam =
  idT :: int
  nameT :: string

record UnderstatTeam =
  team_id :: int
  team_name :: string
  xg_per90 :: real
  xga_per90 :: real
  gf_per90 :: real
  ga_per90 :: real
  home_xg_per90 :: real
  home_xga_per90 :: real
  away_xg_per90 :: real
  away_xga_per90 :: real
  home_gf_per90 :: real
  home_ga_per90 :: real
  away_gf_per90 :: real
  away_ga_per90 :: real
  home_attack_bonus :: real
  home_defense_bonus :: real
  form_factor :: real

text \<open>
  A \<open>Map<number, TeamStrength>\<close> is an association list in insertion order with one entry
  per key; \<open>Map.get\<close> is \<open>map_of\<close> and \<open>Map.set\<close> is \<open>AList.update\<close> (replace in place, or
  append).
\<close>

type_synonym strengths = "(int \<times> TeamStrength) list"

datatype error = RequestFailed | NoTeamData | TypeError

text \<open>
  \<open>console.warn\<close> and \<open>console.error\<close> append to the console; the informational
  \<open>console.log\<close> lines are left out.
\<close>

datatype logmsg =
    NoUnderstatData string int
  | ErrorCalculating error
  | NoStrengthData int
  | FailedUpcoming int error

text \<open>
  A promise is a cell of a store. The service's fields are the first four. The call
  number \<open>p\<close> of \<open>_calculateTeamStrengths\<close> returns the promise at address \<open>p\<close> of the store
  \<open>promises\<close>, and \<open>invocations\<close> counts these calls; \<open>console\<close> is the console output.
\<close>

datatype promise = Pending | Fulfilled strengths | Rejected error

record Service =
  teamStrengths :: strengths
  calculatingTeamStrengths :: "nat option"
  fixturesCache :: "FPLFixture list option"
  bootstrapCache :: "FPLTeam list option"
  promises :: "nat \<Rightarrow> promise"
  invocations :: nat
  console :: "logmsg list"

text \<open>
  What the backend answers to the requests of the service; \<open>Inl\<close> is a failed request.
  \<open>understatResp\<close> and \<open>strengthsBootstrapResp\<close> are the answers to the two requests of
  \<open>_calculateTeamStrengths\<close>; an entry of the \<open>teams\<close> array of the latter that is \<open>null\<close> or
  \<open>undefined\<close> is \<open>None\<close>. \<open>bootstrapResp\<close> is the answer to the bootstrap request of
  \<open>calculateFixtureDifficulty\<close>, whose \<open>teams\<close> are taken to be objects, and \<open>fixturesResp\<close> the
  answer to the fixtures request.
\<close>

record Backend =
  understatResp :: "error + UnderstatTeam list"
  strengthsBootstrapResp :: "error + FPLTeam option list"
  bootstrapResp :: "error + FPLTeam list"
  fixturesResp :: "error + FPLFixture list"

definition newService :: Service where
  "newService = \<lparr>teamStrengths = [], calculatingTeamStrengths = None,
     fixturesCache = None, bootstrapCache = None, promises = (\<lambda>_. Pending),
     invocations = 0, console = []\<rparr>"

section \<open>Team strengths\<close>

definition fplToUnderstatMap :: "string \<Rightarrow> string option" where
  "fplToUnderstatMap = map_of
     [(''Arsenal'', ''Arsenal''),
      (''Aston Villa'', ''Aston Villa''),
      (''Bournemouth'', ''Bournemouth''),
      (''Brentford'', ''Brentford''),
      (''Brighton'', ''Brighton''),
      (''Burnley'', ''Burnley''),
      (''Chelsea'', ''Chelsea''),
      (''Crystal Palace'', ''Crystal Palace''),
      (''Everton'', ''Everton''),
      (''Fulham'', ''Fulham''),
      (''Ipswich'', ''Ipswich''),
      (''Leeds'', ''Leeds United''),
      (''Leicester'', ''Leicester''),
      (''Liverpool'', ''Liverpool''),
      (''Man City'', ''Manchester City''),
      (''Man Utd'', ''Manchester United''),
      (''Newcastle'', ''Newcastle United''),
      (''Nott'' @ [CHR 0x27] @ ''m Forest'', ''Nottingham Forest''),
      (''Southampton'', ''Southampton''),
      (''Spurs'', ''Tottenham''),
      (''Sunderland'', ''Sunderland''),
      (''West Ham'', ''West Ham''),
      (''Wolves'', ''Wolverhampton Wanderers'')]"

text \<open>
  The two lookup maps are filled by \<open>forEach\<close> with \<open>Map.set\<close>, so a later row replaces an
  earlier one with the same key: the lookup goes through the reversed rows. A row enters
  the id map only when its \<open>team_id\<close> is truthy, that is not 0.
\<close>

definition understatMapById :: "UnderstatTeam list \<Rightarrow> int \<Rightarrow> UnderstatTeam option" where
  "understatMapById understatData =
     map_of (rev (map (\<lambda>u. (team_id u, u)) (filter (\<lambda>u. team_id u \<noteq> 0) understatData)))"

definition understatMapByName :: "UnderstatTeam list \<Rightarrow> string \<Rightarrow> UnderstatTeam option" where
  "understatMapByName understatData =
     map_of (rev (map (\<lambda>u. (team_name u, u)) understatData))"

definition findUnderstatTeam :: "UnderstatTeam list \<Rightarrow> FPLTeam \<Rightarrow> UnderstatTeam option" where
  "findUnderstatTeam understatData team =
     (case understatMapById understatData (idT team) of
        Some u \<Rightarrow> Some u
      | None \<Rightarrow>
          (case fplToUnderstatMap (nameT team) of
             None \<Rightarrow> None
           | Some understatName \<Rightarrow> understatMapByName understatData understatName))"

text \<open>
  \<open>x || 0\<close> is \<open>x\<close> for every number but \<open>NaN\<close>, and 0 for a missing field; the rows of
  the model carry every field.
\<close>

definition mkTeamStrength :: "FPLTeam \<Rightarrow> UnderstatTeam \<Rightarrow> TeamStrength" where
  "mkTeamStrength team u =
     \<lparr>teamId = idT team, teamName = nameT team,
      xGPer90 = xg_per90 u, xGAPer90 = xga_per90 u,
      gfPer90 = gf_per90 u, gaPer90 = ga_per90 u,
      xGPer90Home = home_xg_per90 u, xGAPer90Home = home_xga_per90 u,
      xGPer90Away = away_xg_per90 u, xGAPer90Away = away_xga_per90 u,
      gfPer90Home = home_gf_per90 u, gaPer90Home = home_ga_per90 u,
      gfPer90Away = away_gf_per90 u, gaPer90Away = away_ga_per90 u,
      homeAttackBonus = home_attack_bonus u, homeDefenseBonus = home_defense_bonus u,
      formFactor = form_factor u\<rparr>"

text \<open>One round of \<open>teams.forEach\<close>: a team without Understat row is warned about and left out.\<close>

definition processTeam :: "UnderstatTeam list \<Rightarrow> FPLTeam \<Rightarrow> Service \<Rightarrow> Service" where
  "processTeam understatData team s =
     (case findUnderstatTeam understatData team of
        None \<Rightarrow> s\<lparr>console := console s @ [NoUnderstatData (nameT team) (idT team)]\<rparr>
      | Some u \<Rightarrow>
          s\<lparr>teamStrengths :=
              AList.update (idT team) (mkTeamStrength team u) (teamStrengths s)\<rparr>)"

text \<open>
  \<open>teams.forEach\<close>: the rounds in order. On an entry that is \<open>null\<close> or \<open>undefined\<close> the
  callback throws a \<open>TypeError\<close> at \<open>team.id\<close>, and the loop ends there with the strengths
  the earlier rounds have set still in the map.
\<close>

fun forEachTeam ::
  "UnderstatTeam list \<Rightarrow> FPLTeam option list \<Rightarrow> Service \<Rightarrow> error option \<times> Service" where
  "forEachTeam understatData [] s = (None, s)"
| "forEachTeam understatData (None # teams) s = (Some TypeError, s)"
| "forEachTeam understatData (Some team # teams) s =
     forEachTeam understatData teams (processTeam understatData team s)"

text \<open>
  \<open>_calculateTeamStrengths\<close>, run on the answers of its two requests. It suspends at each
  request and touches the service only after the second one has answered, so the run is
  one step of the model. Every \<open>throw\<close> passes through the \<open>catch\<close>, which logs and rethrows
  and undoes nothing: what the loop has written to \<open>this.teamStrengths\<close> stays.
\<close>

definition calculateTeamStrengthsImpl ::
  "error + UnderstatTeam list \<Rightarrow> error + FPLTeam option list \<Rightarrow> Service
     \<Rightarrow> (error + strengths) \<times> Service" where
  "calculateTeamStrengthsImpl understat bootstrap s =
     (let thrown = (\<lambda>e s'. (Inl e, s'\<lparr>console := console s' @ [ErrorCalculating e]\<rparr>)) in
      case understat of
        Inl e \<Rightarrow> thrown e s
      | Inr understatData \<Rightarrow>
          if understatData = [] then thrown NoTeamData s
          else
            (case bootstrap of
               Inl e \<Rightarrow> thrown e s
             | Inr teams \<Rightarrow>
                 (case forEachTeam understatData teams s of
                    (Some e, s') \<Rightarrow> thrown e s'
                  | (None, s') \<Rightarrow> (Inr (teamStrengths s'), s'))))"

section \<open>The shared strength computation\<close>

text \<open>
  JavaScript runs each stretch of code between two suspension points without
  interruption, so a call of \<open>calculateTeamStrengths\<close> is a sequence of atomic steps that
  other callers' steps may come between:
  \<^item> \<open>calculateTeamStrengths\<close>, the call up to its \<open>return\<close> or its \<open>await\<close>, with what the caller
    holds then (the map, the stored promise, or the promise it has just started and awaits);
  \<^item> \<open>settle\<close>, the pending computation finishing on the backend's answers;
  \<^item> \<open>resume\<close>, the caller that started the computation continuing after its \<open>await\<close>: in
    the \<open>try\<close> and in the \<open>catch\<close> alike it clears the stored promise.
\<close>

datatype outcome = ReturnedMap strengths | ReturnedPromise nat | Awaiting nat

definition calculateTeamStrengths :: "Service \<Rightarrow> outcome \<times> Service" where
  "calculateTeamStrengths s =
     (if teamStrengths s \<noteq> [] then (ReturnedMap (teamStrengths s), s)
      else
        (case calculatingTeamStrengths s of
           Some p \<Rightarrow> (ReturnedPromise p, s)
         | None \<Rightarrow>
             (let p = invocations s
              in (Awaiting p,
                  s\<lparr>calculatingTeamStrengths := Some p, invocations := Suc p,
                    promises := (promises s)(p := Pending)\<rparr>))))"

definition toPromise :: "error + strengths \<Rightarrow> promise" where
  "toPromise r = (case r of Inl e \<Rightarrow> Rejected e | Inr m \<Rightarrow> Fulfilled m)"

text \<open>
  Waiting for promise \<open>p\<close> until it is settled: a settled promise gives its value, a
  pending one is settled by the run of \<open>_calculateTeamStrengths\<close> behind it.
\<close>

definition awaitPromise :: "Backend \<Rightarrow> nat \<Rightarrow> Service \<Rightarrow> (error + strengths) \<times> Service" where
  "awaitPromise be p s =
     (case promises s p of
        Fulfilled m \<Rightarrow> (Inr m, s)
      | Rejected e \<Rightarrow> (Inl e, s)
      | Pending \<Rightarrow>
          (let (r, s') =
                 calculateTeamStrengthsImpl (understatResp be) (strengthsBootstrapResp be) s
           in (r, s'\<lparr>promises := (promises s')(p := toPromise r)\<rparr>)))"

definition settle :: "Backend \<Rightarrow> Service \<Rightarrow> Service" where
  "settle be s =
     (case calculatingTeamStrengths s of
        None \<Rightarrow> s
      | Some p \<Rightarrow> snd (awaitPromise be p s))"

definition resume :: "Service \<Rightarrow> Service" where
  "resume s = s\<lparr>calculatingTeamStrengths := None\<rparr>"

text \<open>What a caller receives for its outcome: nothing yet while its promise is pending.\<close>

fun promiseValue :: "promise \<Rightarrow> (error + strengths) option" where
  "promiseValue Pending = None"
| "promiseValue (Fulfilled m) = Some (Inr m)"
| "promiseValue (Rejected e) = Some (Inl e)"

fun received :: "Service \<Rightarrow> outcome \<Rightarrow> (error + strengths) option" where
  "received s (ReturnedMap m) = Some (Inr m)"
| "received s (ReturnedPromise p) = promiseValue (promises s p)"
| "received s (Awaiting p) = promiseValue (promises s p)"

text \<open>\<open>n\<close> callers one after the other, none of them resumed and nothing settled in between.\<close>

fun callers :: "nat \<Rightarrow> Service \<Rightarrow> outcome list \<times> Service" where
  "callers 0 s = ([], s)"
| "callers (Suc n) s =
     (let (oc, s1) = calculateTeamStrengths s;
          (ocs, s2) = callers n s1
      in (oc # ocs, s2))"

text \<open>
  A trace of steps, each with the clock reading (milliseconds) at which it happens.
  \<open>calculateTeamStrengths\<close> reads no clock, and so no step depends on the reading. The
  starter resumes only once its promise is settled.
\<close>

datatype event = Call | Settle Backend | Resume

fun step :: "nat \<times> event \<Rightarrow> outcome list \<times> Service \<Rightarrow> outcome list \<times> Service" where
  "step (t, Call) (ocs, s) =
     (let (oc, s') = calculateTeamStrengths s in (ocs @ [oc], s'))"
| "step (t, Settle be) (ocs, s) = (ocs, settle be s)"
| "step (t, Resume) (ocs, s) =
     (case calculatingTeamStrengths s of
        None \<Rightarrow> (ocs, s)
      | Some p \<Rightarrow> if promises s p = Pending then (ocs, s) else (ocs, resume s))"

definition run :: "(nat \<times> event) list \<Rightarrow> Service \<Rightarrow> outcome list \<times> Service" where
  "run evs s = fold step evs ([], s)"

fun isCall :: "nat \<times> event \<Rightarrow> bool" where
  "isCall (t, Call) = True"
| "isCall (t, Settle be) = False"
| "isCall (t, Resume) = False"

text \<open>
  The states of the cache: \<open>ready\<close> when a non-empty map is stored and no computation is
  pending, \<open>idle\<close> when nothing is stored and nothing is in flight.
\<close>

definition ready :: "Service \<Rightarrow> bool" where
  "ready s =
     (teamStrengths s \<noteq> []
      \<and> (case calculatingTeamStrengths s of None \<Rightarrow> True | Some p \<Rightarrow> promises s p \<noteq> Pending))"

definition idle :: "Service \<Rightarrow> bool" where
  "idle s = (teamStrengths s = [] \<and> calculatingTeamStrengths s = None)"

text \<open>
  \<open>await this.calculateTeamStrengths()\<close> as one caller sees it when no other call comes
  in between: the call, the promise settling, and the starter's resumption. A caller that
  was handed a promise started by another continues only after that starter has resumed,
  whose reaction to the promise was registered first.
\<close>

definition awaitTeamStrengths :: "Backend \<Rightarrow> Service \<Rightarrow> (error + strengths) \<times> Service" where
  "awaitTeamStrengths be s =
     (case calculateTeamStrengths s of
        (ReturnedMap m, s1) \<Rightarrow> (Inr m, s1)
      | (ReturnedPromise p, s1) \<Rightarrow>
          (let (r, s2) = awaitPromise be p s1 in (r, resume s2))
      | (Awaiting p, s1) \<Rightarrow>
          (let (r, s2) = awaitPromise be p s1 in (r, resume s2)))"

section \<open>Scoring fixtures\<close>

definition ALPHA :: real where
  "ALPHA = 0.7"

definition BETA :: real where
  "BETA = 0.7"

definition homeAttack :: "TeamStrength \<Rightarrow> real" where
  "homeAttack strength = (ALPHA * xGPer90Home strength) + ((1 - ALPHA) * gfPer90Home strength)"

definition awayAttack :: "TeamStrength \<Rightarrow> real" where
  "awayAttack strength = (ALPHA * xGPer90Away strength) + ((1 - ALPHA) * gfPer90Away strength)"

definition homeDefense :: "TeamStrength \<Rightarrow> real" where
  "homeDefense strength = (BETA * xGAPer90Home strength) + ((1 - BETA) * gaPer90Home strength)"

definition awayDefense :: "TeamStrength \<Rightarrow> real" where
  "awayDefense strength = (BETA * xGAPer90Away strength) + ((1 - BETA) * gaPer90Away strength)"

text \<open>
  \<open>Math.min\<close> and \<open>Math.max\<close> of a spread pool. Of no argument they are \<open>Infinity\<close> and
  \<open>-Infinity\<close>, which \<open>real\<close> lacks: the 0 of the model stands in for them. A pool is empty
  only when the strengths map is, and then the loop below skips every fixture at its
  lookup and reads no bound (\<open>scoreFixtures_no_strengths\<close>).
\<close>

fun Math_min :: "real list \<Rightarrow> real" where
  "Math_min [] = 0"
| "Math_min (x # xs) = fold min xs x"

fun Math_max :: "real list \<Rightarrow> real" where
  "Math_max [] = 0"
| "Math_max (x # xs) = fold max xs x"

record Bounds =
  minHomeAttack :: real
  maxHomeAttack :: real
  minAwayAttack :: real
  maxAwayAttack :: real
  minHomeDefense :: real
  maxHomeDefense :: real
  minAwayDefense :: real
  maxAwayDefense :: real
  minForm :: real
  maxForm :: real

definition poolBounds :: "strengths \<Rightarrow> Bounds" where
  "poolBounds ts =
     (let allHomeAttackRatings = map (\<lambda>(k, strength). homeAttack strength) ts;
          allAwayAttackRatings = map (\<lambda>(k, strength). awayAttack strength) ts;
          allHomeDefenseRatings = map (\<lambda>(k, strength). homeDefense strength) ts;
          allAwayDefenseRatings = map (\<lambda>(k, strength). awayDefense strength) ts;
          allFormFactors = map (\<lambda>(k, strength). formFactor strength) ts
      in \<lparr>minHomeAttack = Math_min allHomeAttackRatings,
          maxHomeAttack = Math_max allHomeAttackRatings,
          minAwayAttack = Math_min allAwayAttackRatings,
          maxAwayAttack = Math_max allAwayAttackRatings,
          minHomeDefense = Math_min allHomeDefenseRatings,
          maxHomeDefense = Math_max allHomeDefenseRatings,
          minAwayDefense = Math_min allAwayDefenseRatings,
          maxAwayDefense = Math_max allAwayDefenseRatings,
          minForm = Math_min allFormFactors,
          maxForm = Math_max allFormFactors\<rparr>)"

text \<open>The opponent plays away when we are at home, and at home when we are away.\<close>

definition opponentAttackRating :: "bool \<Rightarrow> TeamStrength \<Rightarrow> real" where
  "opponentAttackRating home opponentStrength =
     (let opponentXG = (if home then xGPer90Away opponentStrength else xGPer90Home opponentStrength);
          opponentGF = (if home then gfPer90Away opponentStrength else gfPer90Home opponentStrength)
      in (ALPHA * opponentXG) + ((1 - ALPHA) * opponentGF))"

definition opponentDefenseRating :: "bool \<Rightarrow> TeamStrength \<Rightarrow> real" where
  "opponentDefenseRating home opponentStrength =
     (let opponentXGA = (if home then xGAPer90Away opponentStrength else xGAPer90Home opponentStrength);
          opponentGA = (if home then gaPer90Away opponentStrength else gaPer90Home opponentStrength)
      in (BETA * opponentXGA) + ((1 - BETA) * opponentGA))"

definition attackRatingScaled :: "Bounds \<Rightarrow> bool \<Rightarrow> TeamStrength \<Rightarrow> real" where
  "attackRatingScaled b home opponentStrength =
     (let minAttack = (if home then minAwayAttack b else minHomeAttack b);
          maxAttack = (if home then maxAwayAttack b else maxHomeAttack b)
      in scaleTo100 (opponentAttackRating home opponentStrength) minAttack maxAttack)"

definition defenseRatingScaled :: "Bounds \<Rightarrow> bool \<Rightarrow> TeamStrength \<Rightarrow> real" where
  "defenseRatingScaled b home opponentStrength =
     (let minDefense = (if home then minAwayDefense b else minHomeDefense b);
          maxDefense = (if home then maxAwayDefense b else maxHomeDefense b)
      in scaleTo100Inverted (opponentDefenseRating home opponentStrength) minDefense maxDefense)"

definition homeAwayFactorScaled :: "bool \<Rightarrow> TeamStrength \<Rightarrow> real" where
  "homeAwayFactorScaled home opponentStrength =
     (let homeAwayBonus =
            (if home then homeDefenseBonus opponentStrength else - homeAttackBonus opponentStrength)
      in max 0 (min 100 (50 + (homeAwayBonus * 20))))"

definition formFactorScaled :: "Bounds \<Rightarrow> TeamStrength \<Rightarrow> real" where
  "formFactorScaled b opponentStrength =
     scaleTo100 (formFactor opponentStrength) (minForm b) (maxForm b)"

text \<open>The two composites, as functions of the four scaled terms.\<close>

definition attackDifficultyRawOf :: "real \<Rightarrow> real \<Rightarrow> real \<Rightarrow> real \<Rightarrow> real" where
  "attackDifficultyRawOf attackScaled defenseScaled homeAwayScaled formScaled =
     (defenseScaled * 0.70) + (attackScaled * 0.20) + (homeAwayScaled * 0.05) + (formScaled * 0.05)"

definition defenseDifficultyRawOf :: "real \<Rightarrow> real \<Rightarrow> real \<Rightarrow> real \<Rightarrow> real" where
  "defenseDifficultyRawOf attackScaled defenseScaled homeAwayScaled formScaled =
     (attackScaled * 0.70) + (defenseScaled * 0.20) + (homeAwayScaled * 0.05) + (formScaled * 0.05)"

text \<open>The body of the loop once the opponent's strength and team entry are found.\<close>

definition rateFixture ::
  "Bounds \<Rightarrow> UpcomingFixture \<Rightarrow> TeamStrength \<Rightarrow> FPLTeam \<Rightarrow> FixtureDifficulty" where
  "rateFixture b fixture opponentStrength opponentTeam =
     (let a = attackRatingScaled b (isHome fixture) opponentStrength;
          d = defenseRatingScaled b (isHome fixture) opponentStrength;
          h = homeAwayFactorScaled (isHome fixture) opponentStrength;
          f = formFactorScaled b opponentStrength;
          attackRaw = attackDifficultyRawOf a d h f;
          defenseRaw = defenseDifficultyRawOf a d h f
      in \<lparr>gameweek = gameweek fixture,
          opponentTeamId = opponentTeamId fixture,
          isHome = isHome fixture,
          opponentTeamName = nameT opponentTeam,
          attackDifficulty = scaleToDifficulty attackRaw,
          defenseDifficulty = scaleToDifficulty defenseRaw,
          attackDifficultyRaw = attackRaw,
          defenseDifficultyRaw = defenseRaw\<rparr>)"

text \<open>
  The loop over \<open>upcomingFixtures\<close>: the ratings pushed, in order, and the warnings
  written. A fixture whose opponent has no strength is warned about and skipped; one whose
  opponent is not among the bootstrap teams is skipped silently.
\<close>

fun scoreFixtures ::
  "Bounds \<Rightarrow> strengths \<Rightarrow> FPLTeam list \<Rightarrow> UpcomingFixture list
     \<Rightarrow> FixtureDifficulty list \<times> logmsg list" where
  "scoreFixtures b ts teams [] = ([], [])"
| "scoreFixtures b ts teams (fixture # rest) =
     (let (difficulties, warnings) = scoreFixtures b ts teams rest
      in case map_of ts (opponentTeamId fixture) of
           None \<Rightarrow> (difficulties, NoStrengthData (opponentTeamId fixture) # warnings)
         | Some opponentStrength \<Rightarrow>
             (case find (\<lambda>t. idT t = opponentTeamId fixture) teams of
                None \<Rightarrow> (difficulties, warnings)
              | Some opponentTeam \<Rightarrow>
                  (rateFixture b fixture opponentStrength opponentTeam # difficulties,
                   warnings)))"


text \<open>
  \<open>calculateFixtureDifficulty\<close>. The bootstrap data is fetched once and kept; a failed
  request, like a failed strength computation, is the call's error.
\<close>

definition calculateFixtureDifficulty ::
  "Backend \<Rightarrow> Service \<Rightarrow> int \<Rightarrow> UpcomingFixture list
     \<Rightarrow> (error + FixtureDifficulty list) \<times> Service" where
  "calculateFixtureDifficulty be s teamIdArg upcomingFixtures =
     (case awaitTeamStrengths be s of
        (Inl e, s1) \<Rightarrow> (Inl e, s1)
      | (Inr ts, s1) \<Rightarrow>
          (case (case bootstrapCache s1 of
                   Some teams \<Rightarrow> Inr (teams, s1)
                 | None \<Rightarrow>
                     (case bootstrapResp be of
                        Inl e \<Rightarrow> Inl e
                      | Inr teams \<Rightarrow> Inr (teams, s1\<lparr>bootstrapCache := Some teams\<rparr>))) of
             Inl e \<Rightarrow> (Inl e, s1)
           | Inr (teams, s2) \<Rightarrow>
               (let (difficulties, warnings) =
                      scoreFixtures (poolBounds ts) ts teams upcomingFixtures
                in (Inr difficulties, s2\<lparr>console := console s2 @ warnings\<rparr>))))"

section \<open>Upcoming fixtures of a team\<close>

text \<open>
  \<open>Array.prototype.slice(0, end)\<close>: a negative \<open>end\<close> counts from the end of the array.
\<close>

definition slice0 :: "int \<Rightarrow> 'a list \<Rightarrow> 'a list" where
  "slice0 end xs =
     (if end < 0 then take (nat (int (length xs) + end)) xs else take (nat end) xs)"

definition toUpcoming :: "int \<Rightarrow> FPLFixture \<Rightarrow> UpcomingFixture" where
  "toUpcoming teamIdArg f =
     \<lparr>gameweek = event f,
      opponentTeamId = (if team_h f = teamIdArg then team_a f else team_h f),
      isHome = (team_h f = teamIdArg)\<rparr>"

text \<open>
  The unfinished fixtures of a team, sorted by gameweek (\<open>Array.prototype.sort\<close> is stable,
  and so is \<open>sort_key\<close>) and cut to \<open>count\<close> (written \<open>count'\<close> here).
\<close>

definition teamFixtures :: "int \<Rightarrow> int \<Rightarrow> FPLFixture list \<Rightarrow> UpcomingFixture list" where
  "teamFixtures teamIdArg count' allFixtures =
     map (toUpcoming teamIdArg)
       (slice0 count'
         (sort_key event
           (filter (\<lambda>f. \<not> finished f \<and> (team_h f = teamIdArg \<or> team_a f = teamIdArg))
              allFixtures)))"

text \<open>
  \<open>getTeamUpcomingFixtures(teamId, count = 10)\<close>: an omitted \<open>count\<close> is \<open>None\<close>. Whatever is
  thrown inside is caught, logged and answered with the empty array.
\<close>

definition getTeamUpcomingFixtures ::
  "Backend \<Rightarrow> Service \<Rightarrow> int \<Rightarrow> int option \<Rightarrow> FixtureDifficulty list \<times> Service" where
  "getTeamUpcomingFixtures be s teamIdArg countArg =
     (let count' = (case countArg of None \<Rightarrow> 10 | Some c \<Rightarrow> c)
      in case (case fixturesCache s of
                 Some fs \<Rightarrow> Inr (fs, s)
               | None \<Rightarrow>
                   (case fixturesResp be of
                      Inl e \<Rightarrow> Inl e
                    | Inr fs \<Rightarrow> Inr (fs, s\<lparr>fixturesCache := Some fs\<rparr>))) of
           Inl e \<Rightarrow> ([], s\<lparr>console := console s @ [FailedUpcoming teamIdArg e]\<rparr>)
         | Inr (allFixtures, s1) \<Rightarrow>
             (case calculateFixtureDifficulty be s1 teamIdArg
                     (teamFixtures teamIdArg count' allFixtures) of
                (Inl e, s2) \<Rightarrow> ([], s2\<lparr>console := console s2 @ [FailedUpcoming teamIdArg e]\<rparr>)
              | (Inr difficulties, s2) \<Rightarrow> (difficulties, s2)))"

text \<open>The fixture a rating was computed for: the first three fields of the rating.\<close>

definition fixtureOf :: "FixtureDifficulty \<Rightarrow> UpcomingFixture" where
  "fixtureOf r = \<lparr>gameweek = gameweek r, opponentTeamId = opponentTeamId r, isHome = isHome r\<rparr>"


section \<open>A league of three\<close>

text \<open>
  A backend for the examples: three Understat rows, the third of which is found by name
  only (its \<open>team_id\<close> is 0 and ``Spurs'' maps to ``Tottenham''), a fourth team without a
  row, and nine fixtures. In every row the goals equal the expected goals, so a blended
  rating is the value itself.
\<close>

definition demoUnderstat :: "UnderstatTeam list" where
  "demoUnderstat =
     [\<lparr>team_id = 1, team_name = ''Arsenal'', xg_per90 = 1.8, xga_per90 = 0.9,
        gf_per90 = 1.8, ga_per90 = 0.9, home_xg_per90 = 2.0, home_xga_per90 = 0.6,
        away_xg_per90 = 1.6, away_xga_per90 = 0.8, home_gf_per90 = 2.0, home_ga_per90 = 0.6,
        away_gf_per90 = 1.6, away_ga_per90 = 0.8, home_attack_bonus = 0.2,
        home_defense_bonus = 0.3, form_factor = 0.5\<rparr>,
      \<lparr>team_id = 2, team_name = ''Chelsea'', xg_per90 = 1.35, xga_per90 = 1.2,
        gf_per90 = 1.35, ga_per90 = 1.2, home_xg_per90 = 1.25, home_xga_per90 = 1.1,
        away_xg_per90 = 1.45, away_xga_per90 = 1.2, home_gf_per90 = 1.25, home_ga_per90 = 1.1,
        away_gf_per90 = 1.45, away_ga_per90 = 1.2, home_attack_bonus = 0.1,
        home_defense_bonus = 0.1, form_factor = 0.1\<rparr>,
      \<lparr>team_id = 0, team_name = ''Tottenham'', xg_per90 = 1.0, xga_per90 = 1.6,
        gf_per90 = 1.0, ga_per90 = 1.6, home_xg_per90 = 1.0, home_xga_per90 = 1.6,
        away_xg_per90 = 1.0, away_xga_per90 = 1.6, home_gf_per90 = 1.0, home_ga_per90 = 1.6,
        away_gf_per90 = 1.0, away_ga_per90 = 1.6, home_attack_bonus = 0,
        home_defense_bonus = 0, form_factor = -0.3\<rparr>]"

definition demoTeams :: "FPLTeam list" where
  "demoTeams =
     [\<lparr>idT = 1, nameT = ''Arsenal''\<rparr>, \<lparr>idT = 2, nameT = ''Chelsea''\<rparr>,
      \<lparr>idT = 3, nameT = ''Spurs''\<rparr>, \<lparr>idT = 4, nameT = ''Sunderland''\<rparr>]"

definition demoFixtures :: "FPLFixture list" where
  "demoFixtures =
     [\<lparr>fixtureId = 1, event = 1, team_h = 1, team_a = 2, finished = True\<rparr>,
      \<lparr>fixtureId = 2, event = 3, team_h = 1, team_a = 3, finished = False\<rparr>,
      \<lparr>fixtureId = 3, event = 2, team_h = 2, team_a = 1, finished = False\<rparr>,
      \<lparr>fixtureId = 4, event = 2, team_h = 2, team_a = 3, finished = False\<rparr>,
      \<lparr>fixtureId = 5, event = 4, team_h = 4, team_a = 1, finished = False\<rparr>,
      \<lparr>fixtureId = 6, event = 5, team_h = 1, team_a = 2, finished = False\<rparr>,
      \<lparr>fixtureId = 7, event = 6, team_h = 3, team_a = 1, finished = False\<rparr>,
      \<lparr>fixtureId = 8, event = 7, team_h = 1, team_a = 3, finished = False\<rparr>,
      \<lparr>fixtureId = 9, event = 8, team_h = 2, team_a = 1, finished = False\<rparr>]"

definition demoBackend :: Backend where
  "demoBackend = \<lparr>understatResp = Inr demoUnderstat,
     strengthsBootstrapResp = Inr (map Some demoTeams), bootstrapResp = Inr demoTeams,
     fixturesResp = Inr demoFixtures\<rparr>"

definition demoStrengths :: strengths where
  "demoStrengths =
     [(1, mkTeamStrength \<lparr>idT = 1, nameT = ''Arsenal''\<rparr> (demoUnderstat ! 0)),
      (2, mkTeamStrength \<lparr>idT = 2, nameT = ''Chelsea''\<rparr> (demoUnderstat ! 1)),
      (3, mkTeamStrength \<lparr>idT = 3, nameT = ''Spurs''\<rparr> (demoUnderstat ! 2))]"

text \<open>
  The service once the example strengths are stored and the caller that computed them has
  resumed, the service while the first computation is in flight, and a backend whose
  Understat request fails.
\<close>

definition demoReady :: Service where
  "demoReady =
     newService\<lparr>teamStrengths := demoStrengths, invocations := 1,
       promises := (\<lambda>_. Pending)(0 := Fulfilled demoStrengths),
       console := [NoUnderstatData ''Sunderland'' 4]\<rparr>"

definition demoInFlight :: Service where
  "demoInFlight =
     newService\<lparr>calculatingTeamStrengths := Some 0, invocations := 1,
       promises := (\<lambda>_. Pending)(0 := Pending)\<rparr>"

definition failingBackend :: Backend where
  "failingBackend = demoBackend\<lparr>understatResp := Inl RequestFailed\<rparr>"

text \<open>
  A backend whose bootstrap answer to \<open>_calculateTeamStrengths\<close> has \<open>null\<close> for its second
  team, and the map the loop has filled when it throws there.
\<close>

definition nullTeamBackend :: Backend where
  "nullTeamBackend =
     demoBackend\<lparr>strengthsBootstrapResp := Inr [Some \<lparr>idT = 1, nameT = ''Arsenal''\<rparr>, None]\<rparr>"

definition partialStrengths :: strengths where
  "partialStrengths =
     [(1, mkTeamStrength \<lparr>idT = 1, nameT = ''Arsenal''\<rparr> (demoUnderstat ! 0))]"

text \<open>
  Two fixtures of team 1: away to team 4, which has no strength, and at home to Chelsea,
  with the rating of the latter.
\<close>

definition demoUnmapped :: UpcomingFixture where
  "demoUnmapped = \<lparr>gameweek = 4, opponentTeamId = 4, isHome = False\<rparr>"

definition demoHomeToChelsea :: UpcomingFixture where
  "demoHomeToChelsea = \<lparr>gameweek = 5, opponentTeamId = 2, isHome = True\<rparr>"

definition demoRating :: FixtureDifficulty where
  "demoRating =
     \<lparr>gameweek = 5, opponentTeamId = 2, isHome = True, opponentTeamName = ''Chelsea'',
      attackDifficulty = 3, defenseDifficulty = 4, attackDifficultyRaw = 55.1,
      defenseDifficultyRaw = 67.6\<rparr>"

section \<open>Properties of the numeric core\<close>

text \<open>
  C3. The bucket of a raw composite is 1 up to 20, 2 up to 40, 3 up to 60, 4 up to 80 and
  5 above, each boundary belonging to the lower bucket: 20.0 gives 1, 20.01 gives 2, 40.0
  gives 2, 60.0 gives 3, 80.0 gives 4, 80.01 gives 5, 100 gives 5 and 0 gives 1.
\<close>

theorem scaleToDifficulty_buckets:
  "scaleToDifficulty r =
     (if r \<le> 20 then 1 else if r \<le> 40 then 2 else if r \<le> 60 then 3
      else if r \<le> 80 then 4 else 5)
   \<and> scaleToDifficulty 20.0 = 1 \<and> scaleToDifficulty 20.01 = 2
   \<and> scaleToDifficulty 40.0 = 2 \<and> scaleToDifficulty 60.0 = 3
   \<and> scaleToDifficulty 80.0 = 4 \<and> scaleToDifficulty 80.01 = 5
   \<and> scaleToDifficulty 100 = 5 \<and> scaleToDifficulty 0 = 1"
  by (simp add: scaleToDifficulty_def)

subsection \<open>The inverted scaling as a complement\<close>

text \<open>
  In exact arithmetic the inverted scaling is 100 minus the plain one, and both answer 50
  when the bounds meet.
\<close>

lemma scaleTo100Inverted_complement_exact:
  "(mn < mx \<longrightarrow> scaleTo100Inverted v mn mx = 100 - scaleTo100 v mn mx)
   \<and> scaleTo100 v m m = 50 \<and> scaleTo100Inverted v m m = 50"
proof -
  have "scaleTo100Inverted v mn mx = 100 - scaleTo100 v mn mx" if "mn < mx"
  proof -
    from that have nz: "mx - mn \<noteq> 0" by simp
    have "((mx - v) / (mx - mn)) * 100 = 100 - ((v - mn) / (mx - mn)) * 100"
      using nz by (simp add: field_simps)
    moreover have "mx \<noteq> mn" using that by simp
    ultimately show ?thesis
      unfolding scaleTo100_def scaleTo100Inverted_def by (simp only: if_False)
  qed
  then show ?thesis
    by (simp add: scaleTo100_def scaleTo100Inverted_def)
qed

subsection \<open>Rounding to the nearest double\<close>

lemma lg_bounds:
  assumes "x \<noteq> 0"
  shows "2 powi (lg x) \<le> \<bar>x\<bar>" and "\<bar>x\<bar> < 2 powi (lg x + 1)"
proof -
  obtain p q where pq: "quotient_of \<bar>x\<bar> = (p, q)" by (cases "quotient_of \<bar>x\<bar>")
  then have q: "0 < q" and x: "\<bar>x\<bar> = of_int p / of_int q"
    by (simp_all add: quotient_of_denom_pos quotient_of_div)
  from assms have "0 < \<bar>x\<bar>" by simp
  with x q have p: "0 < p" by (simp add: zero_less_divide_iff)
  define e where "e = bitlen p - bitlen q"
  have bp: "2 powi (bitlen p - 1) \<le> (of_int p :: rat)" "(of_int p :: rat) < 2 powi (bitlen p)"
  proof -
    from bitlen_bounds[OF p] have "2 ^ nat (bitlen p - 1) \<le> p" "p < 2 ^ nat (bitlen p)" by simp_all
    then have "(of_int (2 ^ nat (bitlen p - 1)) :: rat) \<le> of_int p" "(of_int p :: rat) < of_int (2 ^ nat (bitlen p))"
      by (simp_all only: of_int_le_iff of_int_less_iff)
    moreover have "1 \<le> bitlen p" using p by (simp add: bitlen_def floorlog_def)
    ultimately show "2 powi (bitlen p - 1) \<le> (of_int p :: rat)" "(of_int p :: rat) < 2 powi (bitlen p)"
      by (simp_all add: power_int_def)
  qed
  have bq: "2 powi (bitlen q - 1) \<le> (of_int q :: rat)" "(of_int q :: rat) < 2 powi (bitlen q)"
  proof -
    from bitlen_bounds[OF q] have "2 ^ nat (bitlen q - 1) \<le> q" "q < 2 ^ nat (bitlen q)" by simp_all
    then have "(of_int (2 ^ nat (bitlen q - 1)) :: rat) \<le> of_int q" "(of_int q :: rat) < of_int (2 ^ nat (bitlen q))"
      by (simp_all only: of_int_le_iff of_int_less_iff)
    moreover have "1 \<le> bitlen q" using q by (simp add: bitlen_def floorlog_def)
    ultimately show "2 powi (bitlen q - 1) \<le> (of_int q :: rat)" "(of_int q :: rat) < 2 powi (bitlen q)"
      by (simp_all add: power_int_def)
  qed
  have qpos: "(0::rat) < of_int q" using q by simp
  have lower: "2 powi (e - 1) < \<bar>x\<bar>"
  proof -
    have "2 powi (e - 1) * (of_int q :: rat) < 2 powi (e - 1) * 2 powi (bitlen q)"
      using bq(2) by simp
    also have "\<dots> = 2 powi (bitlen p - 1)"
      by (simp add: e_def power_int_add[symmetric])
    also have "\<dots> \<le> of_int p" by (rule bp(1))
    finally show ?thesis using qpos by (simp add: x pos_less_divide_eq)
  qed
  have upper: "\<bar>x\<bar> < 2 powi (e + 1)"
  proof -
    have "(of_int p :: rat) < 2 powi (bitlen p)" by (rule bp(2))
    also have "\<dots> = 2 powi (e + 1) * 2 powi (bitlen q - 1)"
      by (simp add: e_def power_int_add[symmetric])
    also have "\<dots> \<le> 2 powi (e + 1) * of_int q"
      using bq(1) by simp
    finally show ?thesis using qpos by (simp add: x pos_divide_less_eq)
  qed
  have lgx: "lg x = (if 2 powi e \<le> \<bar>x\<bar> then e else e - 1)"
    by (simp add: lg_def pq e_def Let_def)
  show "2 powi (lg x) \<le> \<bar>x\<bar>"
    using lower by (simp add: lgx)
  show "\<bar>x\<bar> < 2 powi (lg x + 1)"
    using upper by (auto simp: lgx not_le)
qed

lemma roundHalfEven_error: "\<bar>of_int (roundHalfEven y) - y\<bar> \<le> 1 / 2"
proof -
  have "of_int \<lfloor>y\<rfloor> \<le> y" "y < of_int \<lfloor>y\<rfloor> + 1" by linarith+
  then show ?thesis
    by (auto simp: roundHalfEven_def Let_def abs_le_iff)
qed

lemma ulp_pos: "0 < ulp x"
  by (simp add: ulp_def)

lemma ulp_le: "ulp x \<le> 2 powi (- 52) * \<bar>x\<bar> + 2 powi (- 1074)"
proof (cases "x \<noteq> 0 \<and> - 1022 \<le> lg x")
  case True
  then have "expo x = lg x" by (simp add: expo_def)
  then have "ulp x = 2 powi (- 52 + lg x)" by (simp add: ulp_def algebra_simps)
  also have "\<dots> = 2 powi (- 52) * 2 powi (lg x)"
    by (rule power_int_add) simp
  finally have "ulp x = 2 powi (- 52) * 2 powi (lg x)" .
  also have "\<dots> \<le> 2 powi (- 52) * \<bar>x\<bar>"
    using lg_bounds(1)[of x] True by simp
  finally have "ulp x \<le> 2 powi (- 52) * \<bar>x\<bar>" .
  moreover have "(0::rat) < 2 powi (- 1074)" by (rule zero_less_power_int) simp
  ultimately show ?thesis by linarith
next
  case False
  then have "expo x = - 1022" by (auto simp: expo_def)
  then have "ulp x = 2 powi (- 1074)" by (simp add: ulp_def)
  moreover have "0 \<le> 2 powi (- 52) * \<bar>x\<bar>" by simp
  ultimately show ?thesis by linarith
qed

lemma rnd_error_ulp: "\<bar>rnd x - x\<bar> \<le> ulp x / 2"
proof -
  have "rnd x - x = (of_int (roundHalfEven (x / ulp x)) - x / ulp x) * ulp x"
    using ulp_pos[of x] by (simp add: rnd_def field_simps)
  then have "\<bar>rnd x - x\<bar> = \<bar>of_int (roundHalfEven (x / ulp x)) - x / ulp x\<bar> * ulp x"
    using ulp_pos[of x] by (simp add: abs_mult)
  also have "\<dots> \<le> (1 / 2) * ulp x"
    using roundHalfEven_error[of "x / ulp x"] ulp_pos[of x]
    by (intro mult_right_mono) simp_all
  finally show ?thesis by simp
qed

lemma rnd_error: "\<bar>rnd x - x\<bar> \<le> eps * \<bar>x\<bar> + eta"
proof -
  have "ulp x / 2 \<le> (2 powi (- 52) * \<bar>x\<bar> + 2 powi (- 1074)) / 2"
    using ulp_le[of x] by simp
  also have "\<dots> = eps * \<bar>x\<bar> + eta"
    by (simp add: eps_def eta_def power_int_minus field_simps)
  finally show ?thesis using rnd_error_ulp[of x] by linarith
qed

lemma eps_eta_pos: "0 < eps" "0 < eta" "eps \<le> 1" "eta \<le> 1"
  by (simp_all add: eps_def eta_def power_int_minus field_simps)

lemma rnd_abs_le: "\<bar>rnd x\<bar> \<le> 2 * \<bar>x\<bar> + eta"
proof -
  have "\<bar>rnd x\<bar> \<le> \<bar>x\<bar> + \<bar>rnd x - x\<bar>" by linarith
  also have "\<dots> \<le> \<bar>x\<bar> + (eps * \<bar>x\<bar> + eta)" using rnd_error[of x] by linarith
  also have "\<dots> \<le> \<bar>x\<bar> + (1 * \<bar>x\<bar> + eta)"
    using eps_eta_pos(3) by (intro add_left_mono add_right_mono mult_right_mono) simp_all
  finally show ?thesis by simp
qed

lemma fl_Some:
  assumes "\<bar>x\<bar> \<le> 2 powi 1022"
  shows "fl x = Some (rnd x)"
proof -
  have "\<bar>rnd x\<bar> \<le> 2 * \<bar>x\<bar> + eta" by (rule rnd_abs_le)
  also have "\<dots> \<le> 2 * 2 powi 1022 + 1" using assms eps_eta_pos(4) by linarith
  also have "\<dots> \<le> maxDouble" by (simp add: maxDouble_def)
  finally show ?thesis by (simp add: fl_def)
qed

text \<open>How an error bound passes through a division and through a rounding.\<close>

lemma quotient_error:
  fixes a d A D u h k :: rat
  assumes d: "0 < d" and A: "\<bar>A - a\<bar> \<le> u * \<bar>a\<bar> + h" and D: "\<bar>D - d\<bar> \<le> u * d + h"
    and h: "0 \<le> h" "h \<le> k * d" and u: "0 \<le> u" and k: "0 \<le> k" and uk: "u + k \<le> 1 / 2"
  shows "d / 2 \<le> D"
    and "\<bar>A / D - a / d\<bar> \<le> (1 + 2 * (u + k)) * ((2 * u + k) * \<bar>a / d\<bar> + k)"
proof -
  let ?w = "u + k"
  have Dd: "\<bar>D - d\<bar> \<le> ?w * d"
  proof -
    have "u * d + h \<le> u * d + k * d" using h(2) by simp
    with D show ?thesis by (simp add: algebra_simps)
  qed
  have wd: "?w * d \<le> d / 2"
    using mult_right_mono[OF uk, of d] d by simp
  have Dlow: "(1 - ?w) * d \<le> D"
    using Dd by (simp add: algebra_simps abs_le_iff)
  show half: "d / 2 \<le> D"
    using Dd wd by (simp add: abs_le_iff)
  then have Dpos: "0 < D" using d by linarith
  have num: "\<bar>A * d - a * D\<bar> \<le> d * ((2 * u + k) * \<bar>a\<bar> + k * d)"
  proof -
    have "A * d - a * D = (A - a) * d - a * (D - d)" by (simp add: algebra_simps)
    then have "\<bar>A * d - a * D\<bar> \<le> \<bar>A - a\<bar> * d + \<bar>a\<bar> * \<bar>D - d\<bar>"
      using d by (simp add: abs_mult) (metis abs_mult abs_of_pos abs_triangle_ineq4 d)
    also have "\<dots> \<le> (u * \<bar>a\<bar> + h) * d + \<bar>a\<bar> * (u * d + h)"
      using A D d by (intro add_mono mult_right_mono mult_left_mono) simp_all
    also have "\<dots> \<le> (u * \<bar>a\<bar> + k * d) * d + \<bar>a\<bar> * (u * d + k * d)"
      using h(2) d by (intro add_mono mult_right_mono mult_left_mono add_left_mono) simp_all
    also have "\<dots> = d * ((2 * u + k) * \<bar>a\<bar> + k * d)" by (simp add: algebra_simps)
    finally show ?thesis .
  qed
  have inv: "1 / (1 - ?w) \<le> 1 + 2 * ?w"
  proof -
    have w0: "0 \<le> ?w" using u k by simp
    have "1 \<le> (1 + 2 * ?w) * (1 - ?w)"
    proof -
      have "(1 + 2 * ?w) * (1 - ?w) = 1 + ?w * (1 - 2 * ?w)" by (simp add: algebra_simps)
      moreover have "0 \<le> ?w * (1 - 2 * ?w)" using w0 uk by (intro mult_nonneg_nonneg) simp_all
      ultimately show ?thesis by linarith
    qed
    moreover have "0 < 1 - ?w" using uk by linarith
    ultimately show ?thesis by (simp add: pos_divide_le_eq)
  qed
  have "A / D - a / d = (A * d - a * D) / (D * d)"
    using Dpos d by (simp add: field_simps)
  then have "\<bar>A / D - a / d\<bar> = \<bar>A * d - a * D\<bar> / (D * d)"
    using Dpos d by (simp add: abs_mult)
  also have "\<dots> \<le> (d * ((2 * u + k) * \<bar>a\<bar> + k * d)) / (D * d)"
    using num Dpos d by (intro divide_right_mono) simp_all
  also have "\<dots> = ((2 * u + k) * \<bar>a\<bar> + k * d) / D"
    using d by simp
  also have "\<dots> \<le> ((2 * u + k) * \<bar>a\<bar> + k * d) / ((1 - ?w) * d)"
  proof (rule divide_left_mono[OF Dlow])
    show "0 \<le> (2 * u + k) * \<bar>a\<bar> + k * d" using u k d by (intro add_nonneg_nonneg mult_nonneg_nonneg) simp_all
    show "0 < D * ((1 - ?w) * d)" using Dpos d uk by (intro mult_pos_pos) simp_all
  qed
  also have "\<dots> = (1 / (1 - ?w)) * ((2 * u + k) * \<bar>a / d\<bar> + k)"
    using d by (simp add: field_simps abs_divide)
  also have "\<dots> \<le> (1 + 2 * ?w) * ((2 * u + k) * \<bar>a / d\<bar> + k)"
    using inv u k by (intro mult_right_mono add_nonneg_nonneg mult_nonneg_nonneg) simp_all
  finally show "\<bar>A / D - a / d\<bar> \<le> (1 + 2 * ?w) * ((2 * u + k) * \<bar>a / d\<bar> + k)" .
qed

lemma round_after:
  assumes "\<bar>y - x\<bar> \<le> g * \<bar>x\<bar> + h" and "0 \<le> g" and "0 \<le> h"
  shows "\<bar>rnd y - x\<bar> \<le> ((1 + eps) * g + eps) * \<bar>x\<bar> + ((1 + eps) * h + eta)"
proof -
  have y: "\<bar>y\<bar> \<le> \<bar>x\<bar> + (g * \<bar>x\<bar> + h)" using assms(1) by linarith
  have "\<bar>rnd y - x\<bar> \<le> \<bar>rnd y - y\<bar> + \<bar>y - x\<bar>" by linarith
  also have "\<dots> \<le> (eps * \<bar>y\<bar> + eta) + (g * \<bar>x\<bar> + h)"
    using rnd_error[of y] assms(1) by linarith
  also have "\<dots> \<le> (eps * (\<bar>x\<bar> + (g * \<bar>x\<bar> + h)) + eta) + (g * \<bar>x\<bar> + h)"
    using y eps_eta_pos(1) by (intro add_right_mono add_left_mono mult_left_mono) simp_all
  also have "\<dots> = ((1 + eps) * g + eps) * \<bar>x\<bar> + ((1 + eps) * h + eta)"
    by (simp add: algebra_simps)
  finally show ?thesis .
qed

lemma error_constants:
  "(1 + eps) * ((1 + eps) * ((1 + 2 * (eps + 2 powi (- 175))) * (2 * eps + 2 powi (- 175))) + eps) + eps
     \<le> 9 / 2 * eps"
  "(1 + eps) * (100 * ((1 + eps) * ((1 + 2 * (eps + 2 powi (- 175))) * 2 powi (- 175)) + eta)) + eta
     \<le> 2 powi (- 160)"
  by (simp_all add: eps_def eta_def power_int_minus field_simps)

lemma scaled_quotient:
  fixes a d :: rat
  assumes a: "\<bar>a\<bar> \<le> 2 powi 101" and d: "2 powi (- 900) \<le> d" "d \<le> 2 powi 101"
  shows "\<exists>s. (case fl a of None \<Rightarrow> None
              | Some A \<Rightarrow> (case fl d of None \<Rightarrow> None
                 | Some D \<Rightarrow> (case fdiv A D of None \<Rightarrow> None | Some q \<Rightarrow> fmul q 100))) = Some s
           \<and> \<bar>s - a / d * 100\<bar> \<le> 9 / 2 * eps * \<bar>a / d * 100\<bar> + 2 powi (- 160)
           \<and> \<bar>s\<bar> \<le> 2 powi 1020"
proof -
  define k :: rat where "k = 2 powi (- 175)"
  define A where "A = rnd a"
  define D where "D = rnd d"
  define q where "q = rnd (A / D)"
  define s where "s = rnd (q * 100)"
  define x where "x = a / d"
  have dpos: "0 < d" using d(1) by (rule less_le_trans[rotated]) simp
  have big: "(2::rat) powi 101 \<le> 2 powi 1022" by (rule power_int_increasing) simp_all
  have flA: "fl a = Some A" unfolding A_def using a big by (intro fl_Some) linarith
  have flD: "fl d = Some D" unfolding D_def using d(2) dpos big by (intro fl_Some) linarith
  have Aerr: "\<bar>A - a\<bar> \<le> eps * \<bar>a\<bar> + eta" unfolding A_def by (rule rnd_error)
  have Derr: "\<bar>D - d\<bar> \<le> eps * d + eta" unfolding D_def using rnd_error[of d] dpos by simp
  have etak: "eta \<le> k * d"
  proof -
    have "eta = k * 2 powi (- 900)" by (simp add: eta_def k_def flip: power_int_add)
    also have "\<dots> \<le> k * d" using d(1) by (intro mult_left_mono) (simp_all add: k_def)
    finally show ?thesis .
  qed
  have k0: "0 \<le> k" by (simp add: k_def)
  have ek: "eps + k \<le> 1 / 2" by (simp add: eps_def k_def power_int_minus field_simps)
  note Q = quotient_error[OF dpos Aerr Derr less_imp_le[OF eps_eta_pos(2)] etak less_imp_le[OF eps_eta_pos(1)] k0 ek]
  have Dlow: "2 powi (- 901) \<le> D"
  proof -
    have "(2::rat) powi (- 901) = 2 powi (- 900) / 2" by (simp add: power_int_minus field_simps)
    also have "\<dots> \<le> d / 2" using d(1) by simp
    finally show ?thesis using Q(1) by linarith
  qed
  then have Dpos: "0 < D" by (rule less_le_trans[rotated]) simp
  have fdiv: "fdiv A D = Some q"
  proof -
    have "\<bar>A\<bar> \<le> 2 * \<bar>a\<bar> + eta" unfolding A_def by (rule rnd_abs_le)
    then have Ab: "\<bar>A\<bar> \<le> 2 powi 103" using a eps_eta_pos(4) by (simp add: power_int_minus)
    have "\<bar>A / D\<bar> = \<bar>A\<bar> / D" using Dpos by (simp add: abs_divide)
    also have "\<dots> \<le> 2 powi 103 / D" using Ab Dpos by (intro divide_right_mono) simp_all
    also have "\<dots> \<le> 2 powi 103 / 2 powi (- 901)" using Dlow by (intro divide_left_mono) simp_all
    also have "\<dots> = 2 powi 1004" by (simp add: power_int_minus)
    also have "\<dots> \<le> 2 powi 1022" by (rule power_int_increasing) simp_all
    finally show ?thesis using Dpos by (simp add: fdiv_def q_def fl_Some)
  qed
  have ADb: "\<bar>A / D\<bar> \<le> 2 powi 1004"
  proof -
    have "\<bar>A\<bar> \<le> 2 * \<bar>a\<bar> + eta" unfolding A_def by (rule rnd_abs_le)
    then have Ab: "\<bar>A\<bar> \<le> 2 powi 103" using a eps_eta_pos(4) by (simp add: power_int_minus)
    have "\<bar>A / D\<bar> = \<bar>A\<bar> / D" using Dpos by (simp add: abs_divide)
    also have "\<dots> \<le> 2 powi 103 / D" using Ab Dpos by (intro divide_right_mono) simp_all
    also have "\<dots> \<le> 2 powi 103 / 2 powi (- 901)" using Dlow by (intro divide_left_mono) simp_all
    also have "\<dots> = 2 powi 1004" by (simp add: power_int_minus)
    finally show ?thesis .
  qed
  have qb: "\<bar>q * 100\<bar> \<le> 2 powi 1013"
  proof -
    have "\<bar>q\<bar> \<le> 2 * \<bar>A / D\<bar> + eta" unfolding q_def by (rule rnd_abs_le)
    then have "\<bar>q\<bar> \<le> 2 * 2 powi 1004 + 1" using ADb eps_eta_pos(4) by linarith
    then have "\<bar>q * 100\<bar> \<le> (2 * 2 powi 1004 + 1) * 100" by (simp add: abs_mult)
    also have "\<dots> \<le> 2 powi 1013" by simp
    finally show ?thesis .
  qed
  have fmul: "fmul q 100 = Some s"
  proof -
    have "(2::rat) powi 1013 \<le> 2 powi 1022" by (rule power_int_increasing) simp_all
    with qb show ?thesis by (simp add: fmul_def s_def fl_Some)
  qed
  have sb: "\<bar>s\<bar> \<le> 2 powi 1020"
  proof -
    have "\<bar>s\<bar> \<le> 2 * \<bar>q * 100\<bar> + eta" unfolding s_def by (rule rnd_abs_le)
    then have "\<bar>s\<bar> \<le> 2 * 2 powi 1013 + 1" using qb eps_eta_pos(4) by linarith
    also have "\<dots> \<le> 2 powi 1020" by simp
    finally show ?thesis .
  qed
  define g1 where "g1 = (1 + 2 * (eps + k)) * (2 * eps + k)"
  define h1 where "h1 = (1 + 2 * (eps + k)) * k"
  have g1: "0 \<le> g1" and h1: "0 \<le> h1"
    using k0 eps_eta_pos(1) by (simp_all add: g1_def h1_def)
  have "g1 * \<bar>x\<bar> + h1 = (1 + 2 * (eps + k)) * ((2 * eps + k) * \<bar>x\<bar> + k)"
    unfolding g1_def h1_def by (simp add: algebra_simps)
  then have e1: "\<bar>A / D - x\<bar> \<le> g1 * \<bar>x\<bar> + h1"
    using Q(2) unfolding x_def by simp
  define g2 where "g2 = (1 + eps) * g1 + eps"
  define h2 where "h2 = (1 + eps) * h1 + eta"
  have g2: "0 \<le> g2" and h2: "0 \<le> h2"
    using g1 h1 eps_eta_pos(1,2) by (simp_all add: g2_def h2_def)
  have e2: "\<bar>q - x\<bar> \<le> g2 * \<bar>x\<bar> + h2"
    unfolding q_def g2_def h2_def by (rule round_after[OF e1 g1 h1])
  have e3: "\<bar>q * 100 - x * 100\<bar> \<le> g2 * \<bar>x * 100\<bar> + 100 * h2"
  proof -
    have "\<bar>q * 100 - x * 100\<bar> = \<bar>(q - x) * 100\<bar>"
      by (rule arg_cong[where f = abs]) (simp add: algebra_simps)
    also have "\<dots> = 100 * \<bar>q - x\<bar>" by (simp only: abs_mult abs_numeral mult.commute)
    also have "\<dots> \<le> 100 * (g2 * \<bar>x\<bar> + h2)" using e2 by simp
    also have "\<dots> = g2 * \<bar>x * 100\<bar> + 100 * h2" by (simp add: abs_mult algebra_simps)
    finally show ?thesis .
  qed
  have e4: "\<bar>s - x * 100\<bar> \<le> ((1 + eps) * g2 + eps) * \<bar>x * 100\<bar> + ((1 + eps) * (100 * h2) + eta)"
    unfolding s_def by (rule round_after[OF e3 g2]) (use h2 in simp)
  have c1: "(1 + eps) * g2 + eps \<le> 9 / 2 * eps"
    unfolding g2_def g1_def k_def by (rule error_constants(1))
  have c2: "(1 + eps) * (100 * h2) + eta \<le> 2 powi (- 160)"
    unfolding h2_def h1_def k_def by (rule error_constants(2))
  have "\<bar>s - x * 100\<bar> \<le> 9 / 2 * eps * \<bar>x * 100\<bar> + 2 powi (- 160)"
    using e4 c2 mult_right_mono[OF c1, of "\<bar>x * 100\<bar>"] by linarith
  then show ?thesis
    using flA flD fdiv fmul sb by (simp add: x_def)
qed

text \<open>The largest double, written out, for the evaluation of \<open>fl\<close>.\<close>

lemma maxDouble_numeral [code]:
  "maxDouble =
     179769313486231570814527423731704356798070567525844996598917476803157260780028538760589558632766878171540458953514382464234321326889464182768467546703537516986049910576551282076245490090389328944075868508455133942304583236903222948165808559332123348274797826204144723168738177180919299881250404026184124858368"
  by (simp add: maxDouble_def)

text \<open>The example of the literals \<open>0.1\<close>, \<open>0\<close> and \<open>0.4\<close>, evaluated.\<close>

lemma tenth: "rnd (1 / 10) = 3602879701896397 / 36028797018963968"
  by code_simp

lemma four_tenths: "rnd (4 / 10) = 3602879701896397 / 9007199254740992"
  by code_simp

lemma tenth_is_double: "is_double (3602879701896397 / 36028797018963968)"
  by code_simp

lemma four_tenths_is_double: "is_double (3602879701896397 / 9007199254740992)"
  by code_simp

lemma demo_scaleTo100_double:
  "scaleTo100_double (3602879701896397 / 36028797018963968) 0 (3602879701896397 / 9007199254740992) = Some 25"
  by code_simp

lemma demo_scaleTo100Inverted_double:
  "scaleTo100Inverted_double (3602879701896397 / 36028797018963968) 0 (3602879701896397 / 9007199254740992)
     = Some (75 + 1 / 2 ^ 46)"
  by code_simp

lemma demo_complement: "fsub 100 25 = Some 75"
  by code_simp

lemma degenerate_double:
  "scaleTo100_double v m m = Some 50" "scaleTo100Inverted_double v m m = Some 50"
  by (simp_all add: scaleTo100_double_def scaleTo100Inverted_double_def)

lemma complement_error:
  fixes v mn mx :: rat
  assumes v: "\<bar>v\<bar> \<le> 2 powi 100" and mn: "\<bar>mn\<bar> \<le> 2 powi 100" and mx: "\<bar>mx\<bar> \<le> 2 powi 100"
    and spread: "2 powi (- 900) \<le> mx - mn"
  defines "S \<equiv> (v - mn) / (mx - mn) * 100"
  shows "\<exists>s i c. scaleTo100_double v mn mx = Some s
           \<and> scaleTo100Inverted_double v mn mx = Some i
           \<and> fsub 100 s = Some c
           \<and> \<bar>s - S\<bar> \<le> 9 / 2 * eps * \<bar>S\<bar> + 2 powi (- 160)
           \<and> \<bar>i - (100 - S)\<bar> \<le> 9 / 2 * eps * \<bar>100 - S\<bar> + 2 powi (- 160)
           \<and> \<bar>i - c\<bar> \<le> 2 powi (- 50) * (\<bar>S\<bar> + \<bar>100 - S\<bar>)"
proof -
  define d where "d = mx - mn"
  define h :: rat where "h = 2 powi (- 160)"
  have two: "(2::rat) powi 101 = 2 powi 100 + 2 powi 100" by simp
  have dpos: "0 < d" using spread unfolding d_def by (rule less_le_trans[rotated]) simp
  then have ne: "mx \<noteq> mn" by (auto simp: d_def)
  have d1: "2 powi (- 900) \<le> d" using spread by (simp add: d_def)
  have d2: "d \<le> 2 powi 101" unfolding two d_def using mn mx by linarith
  have a1: "\<bar>v - mn\<bar> \<le> 2 powi 101" unfolding two using v mn by linarith
  have a2: "\<bar>mx - v\<bar> \<le> 2 powi 101" unfolding two using v mx by linarith
  have eq1: "scaleTo100_double v mn mx
      = (case fl (v - mn) of None \<Rightarrow> None
         | Some A \<Rightarrow> (case fl d of None \<Rightarrow> None
            | Some D \<Rightarrow> (case fdiv A D of None \<Rightarrow> None | Some q \<Rightarrow> fmul q 100)))"
    unfolding scaleTo100_double_def fsub_def d_def using ne by (simp only: if_False)
  have eq2: "scaleTo100Inverted_double v mn mx
      = (case fl (mx - v) of None \<Rightarrow> None
         | Some A \<Rightarrow> (case fl d of None \<Rightarrow> None
            | Some D \<Rightarrow> (case fdiv A D of None \<Rightarrow> None | Some q \<Rightarrow> fmul q 100)))"
    unfolding scaleTo100Inverted_double_def fsub_def d_def using ne by (simp only: if_False)
  have "\<exists>s. scaleTo100_double v mn mx = Some s
      \<and> \<bar>s - (v - mn) / d * 100\<bar> \<le> 9 / 2 * eps * \<bar>(v - mn) / d * 100\<bar> + 2 powi (- 160)
      \<and> \<bar>s\<bar> \<le> 2 powi 1020"
    unfolding eq1 by (rule scaled_quotient[OF a1 d1 d2])
  then obtain s where
    s: "scaleTo100_double v mn mx = Some s"
    and se: "\<bar>s - (v - mn) / d * 100\<bar> \<le> 9 / 2 * eps * \<bar>(v - mn) / d * 100\<bar> + 2 powi (- 160)"
    and sb: "\<bar>s\<bar> \<le> 2 powi 1020"
    by blast
  have "\<exists>i. scaleTo100Inverted_double v mn mx = Some i
      \<and> \<bar>i - (mx - v) / d * 100\<bar> \<le> 9 / 2 * eps * \<bar>(mx - v) / d * 100\<bar> + 2 powi (- 160)
      \<and> \<bar>i\<bar> \<le> 2 powi 1020"
    unfolding eq2 by (rule scaled_quotient[OF a2 d1 d2])
  then obtain i where
    i: "scaleTo100Inverted_double v mn mx = Some i"
    and ie: "\<bar>i - (mx - v) / d * 100\<bar> \<le> 9 / 2 * eps * \<bar>(mx - v) / d * 100\<bar> + 2 powi (- 160)"
    by blast
  have Sd: "(v - mn) / d * 100 = S" by (simp add: S_def d_def)
  have Id: "(mx - v) / d * 100 = 100 - S"
    using dpos by (simp add: S_def d_def field_simps)
  note se = se[unfolded Sd] and ie = ie[unfolded Id]
  define c where "c = rnd (100 - s)"
  have c: "fsub 100 s = Some c"
  proof -
    have "\<bar>100 - s\<bar> \<le> 100 + 2 powi 1020" using sb by linarith
    also have "\<dots> \<le> 2 powi 1022" by simp
    finally show ?thesis by (simp add: fsub_def c_def fl_Some)
  qed
  have ce: "\<bar>c - (100 - s)\<bar> \<le> eps * \<bar>100 - s\<bar> + eta" unfolding c_def by (rule rnd_error)
  define P where "P = \<bar>S\<bar>"
  define Q where "Q = \<bar>100 - S\<bar>"
  define EP where "EP = eps * P"
  define EQ where "EQ = eps * Q"
  have P: "0 \<le> P" and Q: "0 \<le> Q" by (simp_all add: P_def Q_def)
  have PQ: "100 \<le> P + Q" unfolding P_def Q_def by linarith
  have se': "\<bar>s - S\<bar> \<le> 9 / 2 * EP + h" using se by (simp add: EP_def P_def h_def)
  have ie': "\<bar>i - (100 - S)\<bar> \<le> 9 / 2 * EQ + h" using ie by (simp add: EQ_def Q_def h_def)
  have EP0: "0 \<le> EP" using P eps_eta_pos(1) by (simp add: EP_def)
  have G: "9 / 2 * eps \<le> 1 / 2" by (simp add: eps_def power_int_minus)
  have h0: "0 \<le> h" by (simp add: h_def)
  have "\<bar>100 - s\<bar> \<le> Q + \<bar>s - S\<bar>" unfolding Q_def by linarith
  also have "\<dots> \<le> Q + (9 / 2 * eps * P + h)" using se by (simp add: P_def h_def)
  also have "\<dots> \<le> Q + (1 / 2 * P + h)"
    using mult_right_mono[OF G P] by linarith
  finally have "eps * \<bar>100 - s\<bar> \<le> eps * (Q + (1 / 2 * P + h))"
    using eps_eta_pos(1) by (intro mult_left_mono) simp_all
  also have "\<dots> = EQ + 1 / 2 * EP + eps * h" by (simp add: EP_def EQ_def algebra_simps)
  also have "\<dots> \<le> EQ + 1 / 2 * EP + h"
    using mult_right_mono[OF eps_eta_pos(3) h0] by simp
  finally have r: "eps * \<bar>100 - s\<bar> \<le> EQ + 1 / 2 * EP + h" .
  have small: "3 * h + eta \<le> 5 / 2 * (eps * 100)"
    by (simp add: h_def eta_def eps_def power_int_minus field_simps)
  have "eps * 100 \<le> eps * (P + Q)"
    using PQ eps_eta_pos(1) by (intro mult_left_mono) simp_all
  then have sum: "eps * 100 \<le> EP + EQ" by (simp add: EP_def EQ_def algebra_simps)
  have "\<bar>i - c\<bar> \<le> \<bar>i - (100 - S)\<bar> + \<bar>s - S\<bar> + \<bar>c - (100 - s)\<bar>" by linarith
  also have "\<dots> \<le> 8 * EP + 8 * EQ"
  proof -
    have lin: "x + y + z \<le> 8 * EP + 8 * EQ"
      if "y \<le> 9 / 2 * EP + h" "x \<le> 9 / 2 * EQ + h" "z \<le> t + eta"
        "t \<le> EQ + 1 / 2 * EP + h" "3 * h + eta \<le> 5 / 2 * e" "e \<le> EP + EQ"
      for x y z t e :: rat
      using that EP0 by linarith
    show ?thesis by (rule lin[OF se' ie' ce r small sum])
  qed
  also have "\<dots> = 2 powi (- 50) * (\<bar>S\<bar> + \<bar>100 - S\<bar>)"
    by (simp add: EP_def EQ_def P_def Q_def eps_def power_int_minus field_simps)
  finally have "\<bar>i - c\<bar> \<le> 2 powi (- 50) * (\<bar>S\<bar> + \<bar>100 - S\<bar>)" .
  with s i c se ie show ?thesis by blast
qed

lemma demoValue_eq: "demoValue = 3602879701896397 / 36028797018963968"
  unfolding demoValue_def by (rule tenth)

lemma demoMax_eq: "demoMax = 3602879701896397 / 9007199254740992"
  unfolding demoMax_def by (rule four_tenths)

lemma zero_is_double: "is_double 0"
  by (simp add: is_double_def fl_def rnd_def roundHalfEven_def maxDouble_def)

lemma in_range_sum:
  fixes v mn mx :: rat
  assumes "mn \<le> v" "v \<le> mx" "mn < mx"
  shows "\<bar>(v - mn) / (mx - mn) * 100\<bar> + \<bar>100 - (v - mn) / (mx - mn) * 100\<bar> = 100"
proof -
  have d: "0 < mx - mn" using assms(3) by simp
  have "0 \<le> (v - mn) / (mx - mn)" using assms(1) d by simp
  moreover have "(v - mn) / (mx - mn) \<le> 1" using assms(2) d by (simp add: pos_divide_le_eq)
  moreover have "\<bar>x * 100\<bar> + \<bar>100 - x * 100\<bar> = 100" if "0 \<le> x" "x \<le> 1" for x :: rat
    using that by linarith
  ultimately show ?thesis by blast
qed

subsection \<open>The complement in double precision\<close>

text \<open>
  C8, amended. When \<open>min = max\<close> both scalings answer exactly 50 whatever the value.
  For \<open>min < max\<close> the inverted scaling is 100 minus the plain scaling up to rounding: for
  arguments of magnitude at most \<open>2 ^ 100\<close> with \<open>max - min\<close> at least \<open>2 ^ - 900\<close>, both
  scalings and the subtraction from 100 give finite doubles, and the inverted scaling
  differs from 100 minus the plain scaling by at most \<open>2 ^ - 50 * (\<bar>S\<bar> + \<bar>100 - S\<bar>)\<close>, where
  \<open>S = (v - min) / (max - min) * 100\<close> is the plain scaling in exact arithmetic; for a
  value between the bounds that is at most \<open>100 * 2 ^ - 50\<close>, less than \<open>10 ^ - 13\<close>.
\<close>

theorem scaleTo100Inverted_complement_rounded:
  fixes v m mn mx :: rat
  shows "scaleTo100_double v m m = Some 50 \<and> scaleTo100Inverted_double v m m = Some 50
    \<and> (\<bar>v\<bar> \<le> 2 powi 100 \<and> \<bar>mn\<bar> \<le> 2 powi 100 \<and> \<bar>mx\<bar> \<le> 2 powi 100
         \<and> 2 powi (- 900) \<le> mx - mn \<longrightarrow>
       (\<exists>s i c. scaleTo100_double v mn mx = Some s
          \<and> scaleTo100Inverted_double v mn mx = Some i
          \<and> fsub 100 s = Some c
          \<and> \<bar>i - c\<bar> \<le> 2 powi (- 50) *
                (\<bar>(v - mn) / (mx - mn) * 100\<bar> + \<bar>100 - (v - mn) / (mx - mn) * 100\<bar>)
          \<and> (mn \<le> v \<and> v \<le> mx \<longrightarrow> \<bar>i - c\<bar> \<le> 2 powi (- 50) * 100)))"
proof (intro conjI impI)
  show "scaleTo100_double v m m = Some 50" by (rule degenerate_double(1))
  show "scaleTo100Inverted_double v m m = Some 50" by (rule degenerate_double(2))
next
  assume h: "\<bar>v\<bar> \<le> 2 powi 100 \<and> \<bar>mn\<bar> \<le> 2 powi 100 \<and> \<bar>mx\<bar> \<le> 2 powi 100
         \<and> 2 powi (- 900) \<le> mx - mn"
  then have lt: "mn < mx"
  proof -
    have "(0::rat) < 2 powi (- 900)" by simp
    with h show ?thesis by linarith
  qed
  from h complement_error[of v mn mx] obtain s i c where
    s: "scaleTo100_double v mn mx = Some s" and i: "scaleTo100Inverted_double v mn mx = Some i"
    and c: "fsub 100 s = Some c"
    and b: "\<bar>i - c\<bar> \<le> 2 powi (- 50) *
                (\<bar>(v - mn) / (mx - mn) * 100\<bar> + \<bar>100 - (v - mn) / (mx - mn) * 100\<bar>)"
    by blast
  have "\<bar>i - c\<bar> \<le> 2 powi (- 50) * 100" if "mn \<le> v \<and> v \<le> mx"
    using b in_range_sum[of mn v mx] that lt by simp
  with s i c b show "\<exists>s i c. scaleTo100_double v mn mx = Some s
          \<and> scaleTo100Inverted_double v mn mx = Some i
          \<and> fsub 100 s = Some c
          \<and> \<bar>i - c\<bar> \<le> 2 powi (- 50) *
                (\<bar>(v - mn) / (mx - mn) * 100\<bar> + \<bar>100 - (v - mn) / (mx - mn) * 100\<bar>)
          \<and> (mn \<le> v \<and> v \<le> mx \<longrightarrow> \<bar>i - c\<bar> \<le> 2 powi (- 50) * 100)"
    by blast
qed

text \<open>
  The degenerate bounds 5, 5 at value 7; and the literals \<open>0.1\<close> between \<open>0\<close> and \<open>0.4\<close>,
  where the plain scaling is 25, the inverted scaling \<open>75 + 2 ^ - 46\<close> and the distance
  \<open>2 ^ - 46\<close> is within the bound.
\<close>

theorem scaleTo100Inverted_complement_rounded_witness:
  "scaleTo100_double 7 5 5 = Some 50 \<and> scaleTo100Inverted_double 7 5 5 = Some 50
   \<and> scaleTo100_double demoValue 0 demoMax = Some 25
   \<and> scaleTo100Inverted_double demoValue 0 demoMax = Some (75 + 1 / 2 ^ 46)
   \<and> fsub 100 25 = Some 75
   \<and> \<bar>(75 + 1 / 2 ^ 46) - 75\<bar> \<le> 2 powi (- 50) * (100::rat)"
proof -
  note T = scaleTo100Inverted_complement_rounded[where v = demoValue and mn = 0 and mx = demoMax]
  have hyp: "\<bar>demoValue\<bar> \<le> 2 powi 100 \<and> \<bar>0::rat\<bar> \<le> 2 powi 100 \<and> \<bar>demoMax\<bar> \<le> 2 powi 100
         \<and> 2 powi (- 900) \<le> demoMax - 0"
    unfolding demoValue_eq demoMax_eq by (simp add: power_int_minus field_simps)
  have rng: "0 \<le> demoValue \<and> demoValue \<le> demoMax"
    unfolding demoValue_eq demoMax_eq by simp
  have s: "scaleTo100_double demoValue 0 demoMax = Some 25"
    unfolding demoValue_eq demoMax_eq by (rule demo_scaleTo100_double)
  have i: "scaleTo100Inverted_double demoValue 0 demoMax = Some (75 + 1 / 2 ^ 46)"
    unfolding demoValue_eq demoMax_eq by (rule demo_scaleTo100Inverted_double)
  from T hyp rng obtain s' i' c' where
    "scaleTo100_double demoValue 0 demoMax = Some s'"
    "scaleTo100Inverted_double demoValue 0 demoMax = Some i'"
    "fsub 100 s' = Some c'" "\<bar>i' - c'\<bar> \<le> 2 powi (- 50) * 100"
    by blast
  with s i demo_complement have "\<bar>(75 + 1 / 2 ^ 46) - 75\<bar> \<le> 2 powi (- 50) * (100::rat)"
    by simp
  with s i demo_complement
    scaleTo100Inverted_complement_rounded[where v = 7 and m = 5 and mn = 0 and mx = 0]
  show ?thesis by blast
qed

text \<open>
  C8, as the specification states it, fails in double precision:
  \<open>scaleTo100Inverted(0.1, 0, 0.4)\<close> is \<open>75 + 2 ^ - 46\<close>, printed \<open>75.00000000000001\<close>, while \<open>scaleTo100(0.1, 0, 0.4)\<close> is 25
  and \<open>100 - 25\<close> is 75. The quotient \<open>0.1 / 0.4\<close> is exactly a quarter, but
  \<open>0.4 - 0.1\<close> rounds to \<open>0.30000000000000004\<close> and the quotient of that by \<open>0.4\<close> rounds above
  three quarters.
\<close>

theorem complement_rounding_counterexample:
  "is_double demoValue \<and> is_double 0 \<and> is_double demoMax \<and> 0 < demoMax
   \<and> scaleTo100_double demoValue 0 demoMax = Some 25
   \<and> fsub 100 25 = Some 75
   \<and> scaleTo100Inverted_double demoValue 0 demoMax = Some (75 + 1 / 2 ^ 46)
   \<and> 75 + 1 / 2 ^ 46 \<noteq> (75::rat)"
  unfolding demoValue_eq demoMax_eq
  using tenth_is_double four_tenths_is_double zero_is_double demo_scaleTo100_double
    demo_scaleTo100Inverted_double demo_complement
  by simp

section \<open>Properties of the scoring loop\<close>

lemma Math_min_le: "x \<in> set xs \<Longrightarrow> Math_min xs \<le> x"
proof (cases xs)
  case Nil
  then show "x \<in> set xs \<Longrightarrow> Math_min xs \<le> x" by simp
next
  case (Cons a as)
  assume "x \<in> set xs"
  have "Math_min xs = Min (set (a # as))"
    unfolding Cons Math_min.simps by (rule Min.set_eq_fold[symmetric])
  then show "Math_min xs \<le> x"
    using \<open>x \<in> set xs\<close> Cons by simp
qed

lemma Math_max_ge: "x \<in> set xs \<Longrightarrow> x \<le> Math_max xs"
proof (cases xs)
  case Nil
  then show "x \<in> set xs \<Longrightarrow> x \<le> Math_max xs" by simp
next
  case (Cons a as)
  assume "x \<in> set xs"
  have "Math_max xs = Max (set (a # as))"
    unfolding Cons Math_max.simps by (rule Max.set_eq_fold[symmetric])
  then show "x \<le> Math_max xs"
    using \<open>x \<in> set xs\<close> Cons by simp
qed

lemma unit_scale: "0 \<le> (q::real) \<Longrightarrow> q \<le> 1 \<Longrightarrow> 0 \<le> q * 100 \<and> q * 100 \<le> 100"
  by simp

lemma scaleTo100_range:
  assumes "mn \<le> v" "v \<le> mx"
  shows "0 \<le> scaleTo100 v mn mx \<and> scaleTo100 v mn mx \<le> 100"
proof (cases "mx = mn")
  case True
  then show ?thesis by (simp add: scaleTo100_def)
next
  case False
  with assms have pos: "0 < mx - mn" by simp
  have eq: "scaleTo100 v mn mx = ((v - mn) / (mx - mn)) * 100"
    unfolding scaleTo100_def using False by (simp only: if_False)
  have "0 \<le> (v - mn) / (mx - mn)" using assms pos by simp
  moreover have "(v - mn) / (mx - mn) \<le> 1" using assms pos by simp
  ultimately show ?thesis unfolding eq by (rule unit_scale)
qed

lemma scaleTo100Inverted_range:
  assumes "mn \<le> v" "v \<le> mx"
  shows "0 \<le> scaleTo100Inverted v mn mx \<and> scaleTo100Inverted v mn mx \<le> 100"
proof (cases "mx = mn")
  case True
  then show ?thesis by (simp add: scaleTo100Inverted_def)
next
  case False
  with assms have pos: "0 < mx - mn" by simp
  have eq: "scaleTo100Inverted v mn mx = ((mx - v) / (mx - mn)) * 100"
    unfolding scaleTo100Inverted_def using False by (simp only: if_False)
  have "0 \<le> (mx - v) / (mx - mn)" using assms pos by simp
  moreover have "(mx - v) / (mx - mn) \<le> 1" using assms pos by simp
  ultimately show ?thesis unfolding eq by (rule unit_scale)
qed

lemma pool_member:
  assumes "(k, os) \<in> set ts"
  shows "g os \<in> set (map (\<lambda>(k, strength). g strength) ts)"
  using assms by force

lemma attackRatingScaled_range:
  assumes "(k, os) \<in> set ts"
  shows "0 \<le> attackRatingScaled (poolBounds ts) home os
       \<and> attackRatingScaled (poolBounds ts) home os \<le> 100"
proof -
  have h: "homeAttack os \<in> set (map (\<lambda>(k, strength). homeAttack strength) ts)"
    and a: "awayAttack os \<in> set (map (\<lambda>(k, strength). awayAttack strength) ts)"
    using assms by (rule pool_member)+
  have eq: "opponentAttackRating home os = (if home then awayAttack os else homeAttack os)"
    by (simp add: opponentAttackRating_def awayAttack_def homeAttack_def)
  show ?thesis
    unfolding attackRatingScaled_def eq Let_def
    using Math_min_le[OF h] Math_max_ge[OF h] Math_min_le[OF a] Math_max_ge[OF a]
    by (auto simp: poolBounds_def Let_def intro!: scaleTo100_range[THEN conjunct1] scaleTo100_range[THEN conjunct2])
qed

lemma defenseRatingScaled_range:
  assumes "(k, os) \<in> set ts"
  shows "0 \<le> defenseRatingScaled (poolBounds ts) home os
       \<and> defenseRatingScaled (poolBounds ts) home os \<le> 100"
proof -
  have h: "homeDefense os \<in> set (map (\<lambda>(k, strength). homeDefense strength) ts)"
    and a: "awayDefense os \<in> set (map (\<lambda>(k, strength). awayDefense strength) ts)"
    using assms by (rule pool_member)+
  have eq: "opponentDefenseRating home os = (if home then awayDefense os else homeDefense os)"
    by (simp add: opponentDefenseRating_def awayDefense_def homeDefense_def)
  show ?thesis
    unfolding defenseRatingScaled_def eq Let_def
    using Math_min_le[OF h] Math_max_ge[OF h] Math_min_le[OF a] Math_max_ge[OF a]
    by (auto simp: poolBounds_def Let_def intro!: scaleTo100Inverted_range[THEN conjunct1] scaleTo100Inverted_range[THEN conjunct2])
qed

lemma formFactorScaled_range:
  assumes "(k, os) \<in> set ts"
  shows "0 \<le> formFactorScaled (poolBounds ts) os \<and> formFactorScaled (poolBounds ts) os \<le> 100"
proof -
  have f: "formFactor os \<in> set (map (\<lambda>(k, strength). formFactor strength) ts)"
    using assms by (rule pool_member)
  show ?thesis
    unfolding formFactorScaled_def
    using Math_min_le[OF f] Math_max_ge[OF f]
    by (auto simp: poolBounds_def Let_def intro!: scaleTo100_range[THEN conjunct1] scaleTo100_range[THEN conjunct2])
qed

lemma homeAwayFactorScaled_range:
  "0 \<le> homeAwayFactorScaled home os \<and> homeAwayFactorScaled home os \<le> 100"
  by (simp add: homeAwayFactorScaled_def Let_def)

lemma composite_range:
  assumes "0 \<le> a \<and> a \<le> 100" "0 \<le> d \<and> d \<le> 100" "0 \<le> h \<and> h \<le> 100" "0 \<le> f \<and> f \<le> 100"
  shows "0 \<le> attackDifficultyRawOf a d h f \<and> attackDifficultyRawOf a d h f \<le> 100
       \<and> 0 \<le> defenseDifficultyRawOf a d h f \<and> defenseDifficultyRawOf a d h f \<le> 100"
proof -
  have c: "(0.70::real) = 7 / 10" "(0.20::real) = 1 / 5" "(0.05::real) = 1 / 20"
    by simp_all
  show ?thesis
    using assms unfolding attackDifficultyRawOf_def defenseDifficultyRawOf_def c by linarith
qed

lemma rateFixture_raw:
  "attackDifficultyRaw (rateFixture b fx os t) =
     attackDifficultyRawOf (attackRatingScaled b (isHome fx) os) (defenseRatingScaled b (isHome fx) os)
       (homeAwayFactorScaled (isHome fx) os) (formFactorScaled b os)"
  "defenseDifficultyRaw (rateFixture b fx os t) =
     defenseDifficultyRawOf (attackRatingScaled b (isHome fx) os) (defenseRatingScaled b (isHome fx) os)
       (homeAwayFactorScaled (isHome fx) os) (formFactorScaled b os)"
  by (simp_all add: rateFixture_def Let_def)

lemma scoreFixtures_member:
  assumes "r \<in> set (fst (scoreFixtures b ts teams fs))"
  shows "\<exists>fx os t. fx \<in> set fs \<and> map_of ts (opponentTeamId fx) = Some os
           \<and> find (\<lambda>t. idT t = opponentTeamId fx) teams = Some t
           \<and> r = rateFixture b fx os t"
  using assms
proof (induction fs arbitrary: r)
  case Nil
  then show ?case by simp
next
  case (Cons fx fs)
  obtain ds ws where rest: "scoreFixtures b ts teams fs = (ds, ws)"
    by (cases "scoreFixtures b ts teams fs")
  show ?case
  proof (cases "map_of ts (opponentTeamId fx)")
    case None
    with Cons.prems rest have "r \<in> set (fst (scoreFixtures b ts teams fs))" by simp
    from Cons.IH[OF this] show ?thesis by auto
  next
    case (Some os)
    show ?thesis
    proof (cases "find (\<lambda>t. idT t = opponentTeamId fx) teams")
      case None
      with Cons.prems rest Some have "r \<in> set (fst (scoreFixtures b ts teams fs))" by simp
      from Cons.IH[OF this] show ?thesis by auto
    next
      case (Some t)
      with Cons.prems rest \<open>map_of ts (opponentTeamId fx) = Some os\<close>
      have "r = rateFixture b fx os t \<or> r \<in> set (fst (scoreFixtures b ts teams fs))" by simp
      then show ?thesis
      proof
        assume "r = rateFixture b fx os t"
        with Some \<open>map_of ts (opponentTeamId fx) = Some os\<close> show ?thesis by auto
      next
        assume "r \<in> set (fst (scoreFixtures b ts teams fs))"
        from Cons.IH[OF this] show ?thesis by auto
      qed
    qed
  qed
qed


lemma scoreFixtures_Cons_fst:
  "fst (scoreFixtures b ts teams (fx # fs)) =
     (case map_of ts (opponentTeamId fx) of
        None \<Rightarrow> fst (scoreFixtures b ts teams fs)
      | Some os \<Rightarrow>
          (case find (\<lambda>t. idT t = opponentTeamId fx) teams of
             None \<Rightarrow> fst (scoreFixtures b ts teams fs)
           | Some t \<Rightarrow> rateFixture b fx os t # fst (scoreFixtures b ts teams fs)))"
  by (simp split: prod.splits option.splits)

lemma scoreFixtures_Cons_snd:
  "snd (scoreFixtures b ts teams (fx # fs)) =
     (case map_of ts (opponentTeamId fx) of
        None \<Rightarrow> NoStrengthData (opponentTeamId fx) # snd (scoreFixtures b ts teams fs)
      | Some os \<Rightarrow> snd (scoreFixtures b ts teams fs))"
  by (simp split: prod.splits option.splits)

lemma scoreFixtures_no_strengths:
  "fst (scoreFixtures b [] teams fs) = []"
  by (induction fs) (simp_all add: scoreFixtures_Cons_fst del: scoreFixtures.simps(2))

lemma scoreFixtures_skip:
  assumes "map_of ts (opponentTeamId fx) = None"
  shows "fst (scoreFixtures b ts teams (pre @ fx # post)) = fst (scoreFixtures b ts teams (pre @ post))"
    and "NoStrengthData (opponentTeamId fx) \<in> set (snd (scoreFixtures b ts teams (pre @ fx # post)))"
  using assms
  by (induction pre)
     (simp_all add: scoreFixtures_Cons_fst scoreFixtures_Cons_snd del: scoreFixtures.simps(2)
        split: option.splits)

lemma awaitTeamStrengths_bootstrapCache:
  "bootstrapCache (snd (awaitTeamStrengths be s)) = bootstrapCache s"
proof -
  have impl: "bootstrapCache (snd (calculateTeamStrengthsImpl u b s')) = bootstrapCache s'" for u b s'
  proof -
    have "bootstrapCache (snd (forEachTeam d teams s')) = bootstrapCache s'" for d teams
      by (induction d teams s' rule: forEachTeam.induct)
         (simp_all add: processTeam_def split: option.splits)
    then have "forEachTeam d teams s' = (x, s'') \<Longrightarrow> bootstrapCache s'' = bootstrapCache s'"
      for d teams x s''
      by (metis snd_conv)
    then show ?thesis
      by (auto simp: calculateTeamStrengthsImpl_def Let_def
          split: sum.splits prod.splits option.splits)
  qed
  have aw: "bootstrapCache (snd (awaitPromise be p s')) = bootstrapCache s'" for p s'
    using impl[of "understatResp be" "strengthsBootstrapResp be" s']
    by (cases "calculateTeamStrengthsImpl (understatResp be) (strengthsBootstrapResp be) s'")
       (simp add: awaitPromise_def split: promise.splits)
  show ?thesis
  proof (cases "calculateTeamStrengths s")
    case (Pair oc s1)
    then have s1: "bootstrapCache s1 = bootstrapCache s"
      by (auto simp: calculateTeamStrengths_def Let_def split: if_splits option.splits)
    show ?thesis
    proof (cases oc)
      case (ReturnedMap m)
      with Pair s1 show ?thesis by (simp add: awaitTeamStrengths_def)
    next
      case (ReturnedPromise p)
      with Pair s1 aw[of p s1] show ?thesis
        by (cases "awaitPromise be p s1") (simp add: awaitTeamStrengths_def resume_def)
    next
      case (Awaiting p)
      with Pair s1 aw[of p s1] show ?thesis
        by (cases "awaitPromise be p s1") (simp add: awaitTeamStrengths_def resume_def)
    qed
  qed
qed

lemma calculateFixtureDifficulty_Inr:
  assumes "fst (calculateFixtureDifficulty be s tid fs) = Inr ds"
  shows "\<exists>ts teams. fst (awaitTeamStrengths be s) = Inr ts
           \<and> (bootstrapCache s = Some teams \<or> bootstrapCache s = None \<and> bootstrapResp be = Inr teams)
           \<and> ds = fst (scoreFixtures (poolBounds ts) ts teams fs)"
proof -
  obtain r s1 where aw: "awaitTeamStrengths be s = (r, s1)"
    by (cases "awaitTeamStrengths be s")
  have bc: "bootstrapCache s1 = bootstrapCache s"
    using awaitTeamStrengths_bootstrapCache[of be s] aw by simp
  show ?thesis
    using assms aw bc
    by (auto simp: calculateFixtureDifficulty_def Let_def split: sum.splits option.splits prod.splits)
qed

lemma calculateFixtureDifficulty_eq:
  assumes "fst (awaitTeamStrengths be s) = Inr ts"
    and "bootstrapCache s = Some teams \<or> bootstrapCache s = None \<and> bootstrapResp be = Inr teams"
  shows "fst (calculateFixtureDifficulty be s tid fs) = Inr (fst (scoreFixtures (poolBounds ts) ts teams fs))"
    and "set (snd (scoreFixtures (poolBounds ts) ts teams fs))
           \<subseteq> set (console (snd (calculateFixtureDifficulty be s tid fs)))"
proof -
  obtain r s1 where aw: "awaitTeamStrengths be s = (r, s1)"
    by (cases "awaitTeamStrengths be s")
  have bc: "bootstrapCache s1 = bootstrapCache s"
    using awaitTeamStrengths_bootstrapCache[of be s] aw by simp
  show "fst (calculateFixtureDifficulty be s tid fs) = Inr (fst (scoreFixtures (poolBounds ts) ts teams fs))"
    using assms aw bc
    by (auto simp: calculateFixtureDifficulty_def Let_def split: sum.splits option.splits prod.splits)
  show "set (snd (scoreFixtures (poolBounds ts) ts teams fs))
           \<subseteq> set (console (snd (calculateFixtureDifficulty be s tid fs)))"
    using assms aw bc
    by (auto simp: calculateFixtureDifficulty_def Let_def split: sum.splits option.splits prod.splits)
qed

lemma rated_fixture:
  assumes "fst (calculateFixtureDifficulty be s tid fs) = Inr ds" and "r \<in> set ds"
  shows "\<exists>ts os fx t. fst (awaitTeamStrengths be s) = Inr ts \<and> fx \<in> set fs
           \<and> map_of ts (opponentTeamId fx) = Some os
           \<and> r = rateFixture (poolBounds ts) fx os t"
proof -
  from calculateFixtureDifficulty_Inr[OF assms(1)] obtain ts teams
    where ts: "fst (awaitTeamStrengths be s) = Inr ts"
      and ds: "ds = fst (scoreFixtures (poolBounds ts) ts teams fs)"
    by blast
  from assms(2) ds scoreFixtures_member[of r "poolBounds ts" ts teams fs]
  obtain fx os t where "fx \<in> set fs" "map_of ts (opponentTeamId fx) = Some os"
    "r = rateFixture (poolBounds ts) fx os t"
    by blast
  with ts show ?thesis by blast
qed

subsection \<open>The example league, evaluated\<close>

lemma demo_awaitTeamStrengths:
  "fst (awaitTeamStrengths demoBackend newService) = Inr demoStrengths"
  by (simp add: awaitTeamStrengths_def calculateTeamStrengths_def awaitPromise_def newService_def
      demoBackend_def calculateTeamStrengthsImpl_def demoUnderstat_def demoTeams_def
      demoStrengths_def processTeam_def findUnderstatTeam_def understatMapById_def
      understatMapByName_def fplToUnderstatMap_def resume_def toPromise_def Let_def)

lemma demo_poolBounds:
  "poolBounds demoStrengths =
     \<lparr>minHomeAttack = 1, maxHomeAttack = 2, minAwayAttack = 1, maxAwayAttack = 8 / 5,
      minHomeDefense = 3 / 5, maxHomeDefense = 8 / 5, minAwayDefense = 4 / 5,
      maxAwayDefense = 8 / 5, minForm = - (3 / 10), maxForm = 1 / 2\<rparr>"
  by (simp add: poolBounds_def demoStrengths_def demoUnderstat_def mkTeamStrength_def
      homeAttack_def awayAttack_def homeDefense_def awayDefense_def ALPHA_def BETA_def)

lemma demo_bootstrap:
  "bootstrapCache newService = Some demoTeams
   \<or> bootstrapCache newService = None \<and> bootstrapResp demoBackend = Inr demoTeams"
  by (simp add: newService_def demoBackend_def)

lemma demo_rating:
  "fst (calculateFixtureDifficulty demoBackend newService 1 [demoUnmapped, demoHomeToChelsea]) =
   Inr [demoRating]"
  unfolding calculateFixtureDifficulty_eq(1)[OF demo_awaitTeamStrengths demo_bootstrap] demo_poolBounds
  by (simp add: demoUnmapped_def demoHomeToChelsea_def demoRating_def demoStrengths_def demoTeams_def demoUnderstat_def mkTeamStrength_def
      rateFixture_def attackRatingScaled_def defenseRatingScaled_def homeAwayFactorScaled_def
      formFactorScaled_def opponentAttackRating_def opponentDefenseRating_def
      attackDifficultyRawOf_def defenseDifficultyRawOf_def scaleTo100_def scaleTo100Inverted_def
      scaleToDifficulty_def ALPHA_def BETA_def Let_def)

subsection \<open>The composites\<close>

text \<open>
  C1. Every rating that \<open>calculateFixtureDifficulty\<close> returns belongs to an opponent of
  the strengths map, and its \<open>attackDifficultyRaw\<close> is the opponent's scaled defense
  rating times 0.70 plus the scaled attack rating times 0.20 plus the home/away factor
  times 0.05 plus the scaled form factor times 0.05; the four weights add up to 1.
\<close>

theorem attack_raw_weighted_composite:
  assumes "fst (calculateFixtureDifficulty be s tid fs) = Inr ds" and "r \<in> set ds"
  shows "\<exists>ts os. fst (awaitTeamStrengths be s) = Inr ts
           \<and> map_of ts (opponentTeamId r) = Some os
           \<and> attackDifficultyRaw r =
               defenseRatingScaled (poolBounds ts) (isHome r) os * 0.70
               + attackRatingScaled (poolBounds ts) (isHome r) os * 0.20
               + homeAwayFactorScaled (isHome r) os * 0.05
               + formFactorScaled (poolBounds ts) os * 0.05
           \<and> 0.70 + 0.20 + 0.05 + 0.05 = (1::real)"
proof -
  from rated_fixture[OF assms] obtain ts os fx t
    where ts: "fst (awaitTeamStrengths be s) = Inr ts"
      and os: "map_of ts (opponentTeamId fx) = Some os"
      and r: "r = rateFixture (poolBounds ts) fx os t"
    by blast
  have ids: "opponentTeamId r = opponentTeamId fx" "isHome r = isHome fx"
    by (simp_all add: r rateFixture_def Let_def)
  have "attackDifficultyRaw r =
          defenseRatingScaled (poolBounds ts) (isHome r) os * 0.70
          + attackRatingScaled (poolBounds ts) (isHome r) os * 0.20
          + homeAwayFactorScaled (isHome r) os * 0.05
          + formFactorScaled (poolBounds ts) os * 0.05"
    unfolding ids unfolding r rateFixture_raw attackDifficultyRawOf_def by (rule refl)
  moreover have "0.70 + 0.20 + 0.05 + 0.05 = (1::real)" by simp
  ultimately show ?thesis using ts os ids by auto
qed

text \<open>
  Arsenal at home against Chelsea in the example league: all three scaled ratings of
  Chelsea away but the attack (75) are 50, the home/away factor is 52, and the attack
  composite is 55.1.
\<close>

theorem attack_raw_weighted_composite_witness:
  "\<exists>ts os. fst (awaitTeamStrengths demoBackend newService) = Inr ts
     \<and> map_of ts 2 = Some os
     \<and> (55.1::real) =
         defenseRatingScaled (poolBounds ts) True os * 0.70
         + attackRatingScaled (poolBounds ts) True os * 0.20
         + homeAwayFactorScaled True os * 0.05
         + formFactorScaled (poolBounds ts) os * 0.05
     \<and> 0.70 + 0.20 + 0.05 + 0.05 = (1::real)"
  using attack_raw_weighted_composite[OF demo_rating, of demoRating]
  by (simp add: demoRating_def)

text \<open>
  C2. For every returned rating the defense composite is the attack composite with the
  roles of the opponent's scaled attack and scaled defense exchanged: the attack rating
  carries 0.70 and the defense rating 0.20, the home/away and form terms are the same.
  Exchanging the two scaled inputs of one composite gives the other, and the defense
  composite is no function of the attack composite's value.
\<close>

theorem defense_raw_mirrors_attack_raw:
  assumes "fst (calculateFixtureDifficulty be s tid fs) = Inr ds" and "r \<in> set ds"
  shows "(\<exists>ts os a d h f. fst (awaitTeamStrengths be s) = Inr ts
            \<and> map_of ts (opponentTeamId r) = Some os
            \<and> a = attackRatingScaled (poolBounds ts) (isHome r) os
            \<and> d = defenseRatingScaled (poolBounds ts) (isHome r) os
            \<and> h = homeAwayFactorScaled (isHome r) os
            \<and> f = formFactorScaled (poolBounds ts) os
            \<and> attackDifficultyRaw r = d * 0.70 + a * 0.20 + h * 0.05 + f * 0.05
            \<and> defenseDifficultyRaw r = a * 0.70 + d * 0.20 + h * 0.05 + f * 0.05
            \<and> attackDifficultyRaw r = attackDifficultyRawOf a d h f
            \<and> defenseDifficultyRaw r = attackDifficultyRawOf d a h f)
       \<and> (\<forall>a d h f. defenseDifficultyRawOf a d h f = attackDifficultyRawOf d a h f)
       \<and> \<not> (\<exists>g. \<forall>a d h f. defenseDifficultyRawOf a d h f = g (attackDifficultyRawOf a d h f))"
proof -
  from rated_fixture[OF assms] obtain ts os fx t
    where ts: "fst (awaitTeamStrengths be s) = Inr ts"
      and os: "map_of ts (opponentTeamId fx) = Some os"
      and r: "r = rateFixture (poolBounds ts) fx os t"
    by blast
  have ids: "opponentTeamId r = opponentTeamId fx" "isHome r = isHome fx"
    by (simp_all add: r rateFixture_def Let_def)
  have swap: "defenseDifficultyRawOf a d h f = attackDifficultyRawOf d a h f" for a d h f
    by (simp add: defenseDifficultyRawOf_def attackDifficultyRawOf_def)
  have raws: "attackDifficultyRaw r =
                attackDifficultyRawOf (attackRatingScaled (poolBounds ts) (isHome r) os)
                  (defenseRatingScaled (poolBounds ts) (isHome r) os)
                  (homeAwayFactorScaled (isHome r) os) (formFactorScaled (poolBounds ts) os)"
             "defenseDifficultyRaw r =
                defenseDifficultyRawOf (attackRatingScaled (poolBounds ts) (isHome r) os)
                  (defenseRatingScaled (poolBounds ts) (isHome r) os)
                  (homeAwayFactorScaled (isHome r) os) (formFactorScaled (poolBounds ts) os)"
    unfolding ids unfolding r rateFixture_raw by (rule refl)+
  define a where "a = attackRatingScaled (poolBounds ts) (isHome r) os"
  define d where "d = defenseRatingScaled (poolBounds ts) (isHome r) os"
  define h where "h = homeAwayFactorScaled (isHome r) os"
  define f where "f = formFactorScaled (poolBounds ts) os"
  have att: "attackDifficultyRaw r = attackDifficultyRawOf a d h f"
    and def: "defenseDifficultyRaw r = defenseDifficultyRawOf a d h f"
    unfolding a_def d_def h_def f_def by (rule raws)+
  have os': "map_of ts (opponentTeamId r) = Some os"
    using os ids(1) by simp
  have first: "\<exists>ts os a d h f. fst (awaitTeamStrengths be s) = Inr ts
            \<and> map_of ts (opponentTeamId r) = Some os
            \<and> a = attackRatingScaled (poolBounds ts) (isHome r) os
            \<and> d = defenseRatingScaled (poolBounds ts) (isHome r) os
            \<and> h = homeAwayFactorScaled (isHome r) os
            \<and> f = formFactorScaled (poolBounds ts) os
            \<and> attackDifficultyRaw r = d * 0.70 + a * 0.20 + h * 0.05 + f * 0.05
            \<and> defenseDifficultyRaw r = a * 0.70 + d * 0.20 + h * 0.05 + f * 0.05
            \<and> attackDifficultyRaw r = attackDifficultyRawOf a d h f
            \<and> defenseDifficultyRaw r = attackDifficultyRawOf d a h f"
    apply (rule exI[of _ ts], rule exI[of _ os], rule exI[of _ a], rule exI[of _ d],
        rule exI[of _ h], rule exI[of _ f])
    using ts os' att def a_def d_def h_def f_def
    by (simp add: swap attackDifficultyRawOf_def)
  have "\<not> (\<exists>g. \<forall>a d h f. defenseDifficultyRawOf a d h f = g (attackDifficultyRawOf a d h f))"
  proof
    assume "\<exists>g. \<forall>a d h f. defenseDifficultyRawOf a d h f = g (attackDifficultyRawOf a d h f)"
    then obtain g where g: "\<And>a d h f. defenseDifficultyRawOf a d h f = g (attackDifficultyRawOf a d h f)"
      by blast
    have same: "attackDifficultyRawOf 0 20 0 0 = attackDifficultyRawOf 70 0 0 0"
      by (simp add: attackDifficultyRawOf_def)
    have "defenseDifficultyRawOf 0 20 0 0 = defenseDifficultyRawOf 70 0 0 0"
      unfolding g same by (rule refl)
    then show False by (simp add: defenseDifficultyRawOf_def)
  qed
  with first swap show ?thesis by blast
qed

text \<open>
  The same fixture: attack composite 55.1 and defense composite 67.6 from the scaled
  attack 75 and the scaled defense 50.
\<close>

theorem defense_raw_mirrors_attack_raw_witness:
  "\<exists>ts os a d h f. fst (awaitTeamStrengths demoBackend newService) = Inr ts
      \<and> map_of ts 2 = Some os
      \<and> a = attackRatingScaled (poolBounds ts) True os
      \<and> d = defenseRatingScaled (poolBounds ts) True os
      \<and> h = homeAwayFactorScaled True os
      \<and> f = formFactorScaled (poolBounds ts) os
      \<and> (55.1::real) = d * 0.70 + a * 0.20 + h * 0.05 + f * 0.05
      \<and> (67.6::real) = a * 0.70 + d * 0.20 + h * 0.05 + f * 0.05
      \<and> (55.1::real) = attackDifficultyRawOf a d h f
      \<and> (67.6::real) = attackDifficultyRawOf d a h f"
  using defense_raw_mirrors_attack_raw[OF demo_rating, of demoRating, THEN conjunct1]
  by (simp add: demoRating_def)

subsection \<open>The range of the composites\<close>

text \<open>
  C9. Every rating returned belongs to a fixture whose opponent is in the strengths map,
  and both its raw composites lie between 0 and 100.
\<close>

theorem raw_scores_in_range:
  assumes "fst (calculateFixtureDifficulty be s tid fs) = Inr ds" and "r \<in> set ds"
  shows "0 \<le> attackDifficultyRaw r \<and> attackDifficultyRaw r \<le> 100
       \<and> 0 \<le> defenseDifficultyRaw r \<and> defenseDifficultyRaw r \<le> 100"
proof -
  from rated_fixture[OF assms] obtain ts os fx t
    where os: "map_of ts (opponentTeamId fx) = Some os"
      and r: "r = rateFixture (poolBounds ts) fx os t"
    by blast
  from os have mem: "(opponentTeamId fx, os) \<in> set ts" by (rule map_of_SomeD)
  show ?thesis
    unfolding r rateFixture_raw
    by (rule composite_range[OF attackRatingScaled_range[OF mem] defenseRatingScaled_range[OF mem]
          homeAwayFactorScaled_range formFactorScaled_range[OF mem]])
qed

theorem raw_scores_in_range_witness:
  "fst (calculateFixtureDifficulty demoBackend newService 1 [demoUnmapped, demoHomeToChelsea]) =
     Inr [demoRating]
   \<and> 0 \<le> attackDifficultyRaw demoRating \<and> attackDifficultyRaw demoRating \<le> 100
   \<and> 0 \<le> defenseDifficultyRaw demoRating \<and> defenseDifficultyRaw demoRating \<le> 100"
  using raw_scores_in_range[OF demo_rating, of demoRating] demo_rating
  by simp

subsection \<open>Opponents without strength\<close>

text \<open>
  C10. A fixture whose opponent is not in the strengths map is skipped: the call answers
  as it does without that fixture, namely (once the bootstrap teams are at hand) with the
  ratings of the other fixtures and not with an error, no rating is made up for the
  opponent, and the console holds the warning.
\<close>

theorem unmapped_opponent_skipped:
  assumes "fst (awaitTeamStrengths be s) = Inr ts"
    and "map_of ts (opponentTeamId fx) = None"
    and "bootstrapCache s = Some teams \<or> bootstrapCache s = None \<and> bootstrapResp be = Inr teams"
  shows "\<exists>ds. fst (calculateFixtureDifficulty be s tid (pre @ fx # post)) = Inr ds
           \<and> fst (calculateFixtureDifficulty be s tid (pre @ post)) = Inr ds
           \<and> (\<forall>r \<in> set ds. opponentTeamId r \<noteq> opponentTeamId fx)
           \<and> NoStrengthData (opponentTeamId fx)
                \<in> set (console (snd (calculateFixtureDifficulty be s tid (pre @ fx # post))))"
proof -
  let ?b = "poolBounds ts"
  let ?ds = "fst (scoreFixtures ?b ts teams (pre @ fx # post))"
  have with_fx: "fst (calculateFixtureDifficulty be s tid (pre @ fx # post)) = Inr ?ds"
    by (rule calculateFixtureDifficulty_eq(1)[OF assms(1,3)])
  have without: "fst (calculateFixtureDifficulty be s tid (pre @ post)) = Inr ?ds"
    unfolding scoreFixtures_skip(1)[OF assms(2)]
    by (rule calculateFixtureDifficulty_eq(1)[OF assms(1,3)])
  have none: "opponentTeamId r \<noteq> opponentTeamId fx" if "r \<in> set ?ds" for r
  proof -
    from scoreFixtures_member[OF that] obtain fx' os t
      where "map_of ts (opponentTeamId fx') = Some os" "r = rateFixture ?b fx' os t"
      by blast
    then have "map_of ts (opponentTeamId r) = Some os"
      by (simp add: rateFixture_def Let_def)
    with assms(2) show ?thesis by auto
  qed
  have warned: "NoStrengthData (opponentTeamId fx)
      \<in> set (console (snd (calculateFixtureDifficulty be s tid (pre @ fx # post))))"
    using scoreFixtures_skip(2)[OF assms(2), of ?b teams pre post]
      calculateFixtureDifficulty_eq(2)[OF assms(1,3), where fs = "pre @ fx # post" and tid = tid]
    by blast
  from with_fx without none warned show ?thesis by blast
qed

text \<open>Team 4 of the example league has no strength; the fixture against it leaves one rating.\<close>

theorem unmapped_opponent_skipped_witness:
  "fst (calculateFixtureDifficulty demoBackend newService 1 [demoUnmapped, demoHomeToChelsea]) =
     Inr [demoRating]
   \<and> fst (calculateFixtureDifficulty demoBackend newService 1 [demoHomeToChelsea]) =
     Inr [demoRating]
   \<and> NoStrengthData 4
        \<in> set (console (snd (calculateFixtureDifficulty demoBackend newService 1
                   [demoUnmapped, demoHomeToChelsea])))"
proof -
  have unmapped: "map_of demoStrengths (opponentTeamId demoUnmapped) = None"
    by (simp add: demoStrengths_def demoUnmapped_def)
  show ?thesis
    using unmapped_opponent_skipped[OF demo_awaitTeamStrengths unmapped demo_bootstrap,
        of 1 "[]" "[demoHomeToChelsea]"] demo_rating
    by (auto simp: demoUnmapped_def)
qed

section \<open>Properties of the shared strength computation\<close>

lemma processTeam_fields:
  "calculatingTeamStrengths (processTeam d team s) = calculatingTeamStrengths s"
  "promises (processTeam d team s) = promises s"
  "invocations (processTeam d team s) = invocations s"
  "fixturesCache (processTeam d team s) = fixturesCache s"
  "bootstrapCache (processTeam d team s) = bootstrapCache s"
  by (simp_all add: processTeam_def split: option.splits)

lemma forEachTeam_fields:
  "calculatingTeamStrengths (snd (forEachTeam d teams s)) = calculatingTeamStrengths s"
  "promises (snd (forEachTeam d teams s)) = promises s"
  "invocations (snd (forEachTeam d teams s)) = invocations s"
  "fixturesCache (snd (forEachTeam d teams s)) = fixturesCache s"
  "bootstrapCache (snd (forEachTeam d teams s)) = bootstrapCache s"
  by (induction d teams s rule: forEachTeam.induct) (simp_all add: processTeam_fields)

lemma calculateTeamStrengthsImpl_fields:
  "calculatingTeamStrengths (snd (calculateTeamStrengthsImpl u b s)) = calculatingTeamStrengths s"
  "promises (snd (calculateTeamStrengthsImpl u b s)) = promises s"
  "invocations (snd (calculateTeamStrengthsImpl u b s)) = invocations s"
  "fixturesCache (snd (calculateTeamStrengthsImpl u b s)) = fixturesCache s"
  "bootstrapCache (snd (calculateTeamStrengthsImpl u b s)) = bootstrapCache s"
proof -
  have fe: "forEachTeam d teams s = (x, s') \<Longrightarrow>
              calculatingTeamStrengths s' = calculatingTeamStrengths s \<and> promises s' = promises s
              \<and> invocations s' = invocations s \<and> fixturesCache s' = fixturesCache s
              \<and> bootstrapCache s' = bootstrapCache s" for d teams x s'
    using forEachTeam_fields[of d teams s] by simp
  show "calculatingTeamStrengths (snd (calculateTeamStrengthsImpl u b s)) = calculatingTeamStrengths s"
    "promises (snd (calculateTeamStrengthsImpl u b s)) = promises s"
    "invocations (snd (calculateTeamStrengthsImpl u b s)) = invocations s"
    "fixturesCache (snd (calculateTeamStrengthsImpl u b s)) = fixturesCache s"
    "bootstrapCache (snd (calculateTeamStrengthsImpl u b s)) = bootstrapCache s"
    by (auto simp: calculateTeamStrengthsImpl_def Let_def dest: fe
        split: sum.splits prod.splits option.splits)
qed

lemma calculateTeamStrengthsImpl_result:
  "fst (calculateTeamStrengthsImpl u b s) = Inr m \<Longrightarrow>
     teamStrengths (snd (calculateTeamStrengthsImpl u b s)) = m"
  by (auto simp: calculateTeamStrengthsImpl_def Let_def
      split: sum.splits if_splits prod.splits option.splits)

text \<open>A failure ahead of the loop leaves the map as it was.\<close>

lemma calculateTeamStrengthsImpl_early_failure:
  assumes "u = Inl e \<or> u = Inr [] \<or> b = Inl e'"
  shows "\<exists>e''. fst (calculateTeamStrengthsImpl u b s) = Inl e''"
    and "teamStrengths (snd (calculateTeamStrengthsImpl u b s)) = teamStrengths s"
  using assms
  by (auto simp: calculateTeamStrengthsImpl_def Let_def split: sum.splits if_splits)

lemma awaitPromise_pending:
  assumes "promises s p = Pending"
  shows "awaitPromise be p s =
           (fst (calculateTeamStrengthsImpl (understatResp be) (strengthsBootstrapResp be) s),
            (snd (calculateTeamStrengthsImpl (understatResp be) (strengthsBootstrapResp be) s))
              \<lparr>promises := (promises s)(p := toPromise
                  (fst (calculateTeamStrengthsImpl (understatResp be) (strengthsBootstrapResp be) s)))\<rparr>)"
  using assms calculateTeamStrengthsImpl_fields(2)[of "understatResp be" "strengthsBootstrapResp be" s]
  by (cases "calculateTeamStrengthsImpl (understatResp be) (strengthsBootstrapResp be) s")
     (simp add: awaitPromise_def)

text \<open>The settling step on a pending stored promise.\<close>

lemma settle_pending:
  assumes "calculatingTeamStrengths s = Some p" and "promises s p = Pending"
  shows "promises (settle be s) =
           (promises s)(p := toPromise
              (fst (calculateTeamStrengthsImpl (understatResp be) (strengthsBootstrapResp be) s)))"
    and "invocations (settle be s) = invocations s"
    and "calculatingTeamStrengths (settle be s) = Some p"
    and "teamStrengths (settle be s) =
           teamStrengths (snd (calculateTeamStrengthsImpl (understatResp be) (strengthsBootstrapResp be) s))"
  using assms
  by (simp_all add: settle_def awaitPromise_pending calculateTeamStrengthsImpl_fields)

lemma promiseValue_toPromise: "promiseValue (toPromise r) = Some r"
  by (cases r) (simp_all add: toPromise_def)

lemma callers_in_flight:
  assumes "teamStrengths s = []" and "calculatingTeamStrengths s = Some p"
  shows "callers n s = (replicate n (ReturnedPromise p), s)"
  using assms by (induction n) (simp_all add: calculateTeamStrengths_def)

lemma callers_empty:
  assumes "teamStrengths s = []" and "calculatingTeamStrengths s = None"
  shows "callers (Suc n) s =
           (Awaiting (invocations s) # replicate n (ReturnedPromise (invocations s)),
            s\<lparr>calculatingTeamStrengths := Some (invocations s),
              invocations := Suc (invocations s),
              promises := (promises s)(invocations s := Pending)\<rparr>)"
proof -
  let ?s1 = "s\<lparr>calculatingTeamStrengths := Some (invocations s),
              invocations := Suc (invocations s),
              promises := (promises s)(invocations s := Pending)\<rparr>"
  have first: "calculateTeamStrengths s = (Awaiting (invocations s), ?s1)"
    using assms by (simp add: calculateTeamStrengths_def Let_def)
  have rest: "callers n ?s1 = (replicate n (ReturnedPromise (invocations s)), ?s1)"
    by (rule callers_in_flight) (simp_all add: assms)
  show ?thesis
    by (simp add: first rest)
qed

lemma demo_impl:
  assumes "teamStrengths s = []"
  shows "fst (calculateTeamStrengthsImpl (Inr demoUnderstat) (Inr (map Some demoTeams)) s) =
           Inr demoStrengths"
  using assms
  by (simp add: calculateTeamStrengthsImpl_def demoUnderstat_def demoTeams_def
      demoStrengths_def processTeam_def findUnderstatTeam_def understatMapById_def
      understatMapByName_def fplToUnderstatMap_def Let_def)

lemma demo_idle: "idle newService"
  by (simp add: idle_def newService_def)

lemma demo_callers:
  "callers (Suc 2) newService =
     ([Awaiting 0, ReturnedPromise 0, ReturnedPromise 0], demoInFlight)"
proof -
  have empty: "teamStrengths newService = []" "calculatingTeamStrengths newService = None"
    by (simp_all add: newService_def)
  show ?thesis
    unfolding callers_empty[OF empty]
    by (simp add: newService_def demoInFlight_def numeral_2_eq_2)
qed

subsection \<open>One computation for all callers\<close>

text \<open>
  C4. When \<open>n + 1\<close> callers ask for the strengths of an idle service before the
  computation settles, \<open>_calculateTeamStrengths\<close> is invoked exactly once: the first
  caller starts it and awaits its promise, every other caller is handed that same
  promise, nobody has a value before it settles, and once it settles (and after the
  first caller has resumed) every caller has received the one result of that run.
\<close>

theorem single_flight:
  assumes "idle s" and "callers (Suc n) s = (ocs, s1)"
  shows "length ocs = Suc n
       \<and> invocations s1 = Suc (invocations s)
       \<and> invocations (settle be s1) = Suc (invocations s)
       \<and> (\<forall>oc \<in> set ocs. oc = Awaiting (invocations s) \<or> oc = ReturnedPromise (invocations s))
       \<and> (\<forall>oc \<in> set ocs. received s1 oc = None)
       \<and> (\<forall>oc \<in> set ocs. received (settle be s1) oc =
             Some (fst (calculateTeamStrengthsImpl (understatResp be) (strengthsBootstrapResp be) s1)))
       \<and> (\<forall>oc \<in> set ocs. received (resume (settle be s1)) oc =
             Some (fst (calculateTeamStrengthsImpl (understatResp be) (strengthsBootstrapResp be) s1)))"
proof -
  let ?p = "invocations s"
  from assms(1) have empty: "teamStrengths s = []" "calculatingTeamStrengths s = None"
    by (simp_all add: idle_def)
  from callers_empty[OF empty, of n] assms(2)
  have ocs: "ocs = Awaiting ?p # replicate n (ReturnedPromise ?p)"
    and s1: "s1 = s\<lparr>calculatingTeamStrengths := Some ?p, invocations := Suc ?p,
                    promises := (promises s)(?p := Pending)\<rparr>"
    by simp_all
  have handle: "calculatingTeamStrengths s1 = Some ?p" and pending: "promises s1 ?p = Pending"
    by (simp_all add: s1)
  let ?r = "fst (calculateTeamStrengthsImpl (understatResp be) (strengthsBootstrapResp be) s1)"
  have settled: "promises (settle be s1) ?p = toPromise ?r"
    by (simp add: settle_pending(1)[OF handle pending])
  have each: "oc = Awaiting ?p \<or> oc = ReturnedPromise ?p" if "oc \<in> set ocs" for oc
    using that by (auto simp: ocs)
  have before: "received s1 oc = None" if "oc \<in> set ocs" for oc
    using each[OF that] pending by auto
  have after: "received (settle be s1) oc = Some ?r" if "oc \<in> set ocs" for oc
    using each[OF that] settled by (auto simp: promiseValue_toPromise)
  have after': "received (resume (settle be s1)) oc = Some ?r" if "oc \<in> set ocs" for oc
    using each[OF that] settled by (auto simp: promiseValue_toPromise resume_def)
  have "length ocs = Suc n" by (simp add: ocs)
  moreover have inv1: "invocations s1 = Suc ?p" by (simp add: s1)
  moreover have "invocations (settle be s1) = Suc ?p"
    unfolding settle_pending(2)[OF handle pending] by (rule inv1)
  ultimately show ?thesis using each before after after' by blast
qed

text \<open>Three callers on the fresh service of the example league.\<close>

theorem single_flight_witness:
  "idle newService
   \<and> callers (Suc 2) newService =
       ([Awaiting 0, ReturnedPromise 0, ReturnedPromise 0], demoInFlight)
   \<and> invocations (settle demoBackend demoInFlight) = 1
   \<and> received (settle demoBackend demoInFlight) (Awaiting 0) = Some (Inr demoStrengths)
   \<and> received (settle demoBackend demoInFlight) (ReturnedPromise 0) = Some (Inr demoStrengths)"
proof -
  have r: "fst (calculateTeamStrengthsImpl (understatResp demoBackend)
                  (strengthsBootstrapResp demoBackend)
                  demoInFlight) = Inr demoStrengths"
    by (simp add: demoBackend_def demo_impl demoInFlight_def newService_def)
  show ?thesis
    using single_flight[OF demo_idle demo_callers, of demoBackend] demo_idle demo_callers
    by (simp add: r newService_def)
qed

subsection \<open>No expiry\<close>

lemma step_ready:
  assumes "ready s"
  shows "\<exists>s'. step ev (ocs, s) =
            (ocs @ (if isCall ev then [ReturnedMap (teamStrengths s)] else []), s')
          \<and> ready s' \<and> teamStrengths s' = teamStrengths s \<and> invocations s' = invocations s"
proof (cases ev)
  case (Pair t e)
  show ?thesis
  proof (cases e)
    case Call
    with Pair assms show ?thesis
      by (simp add: ready_def calculateTeamStrengths_def)
  next
    case (Settle be)
    with Pair assms show ?thesis
      by (auto simp: ready_def settle_def awaitPromise_def split: option.splits promise.splits)
  next
    case Resume
    with Pair assms show ?thesis
      by (auto simp: ready_def resume_def split: option.splits)
  qed
qed

lemma fold_step_ready:
  assumes "ready s"
  shows "fst (fold step evs (ocs, s)) =
           ocs @ replicate (length (filter isCall evs)) (ReturnedMap (teamStrengths s))
       \<and> ready (snd (fold step evs (ocs, s)))
       \<and> teamStrengths (snd (fold step evs (ocs, s))) = teamStrengths s
       \<and> invocations (snd (fold step evs (ocs, s))) = invocations s"
  using assms
proof (induction evs arbitrary: ocs s)
  case Nil
  then show ?case by simp
next
  case (Cons ev evs)
  from step_ready[OF Cons.prems, of ev ocs] obtain s'
    where st: "step ev (ocs, s) =
                 (ocs @ (if isCall ev then [ReturnedMap (teamStrengths s)] else []), s')"
      and r: "ready s'" and m: "teamStrengths s' = teamStrengths s"
      and i: "invocations s' = invocations s"
    by blast
  from Cons.IH[OF r, of "ocs @ (if isCall ev then [ReturnedMap (teamStrengths s)] else [])"]
  show ?case
    by (simp add: st m i replicate_append_same)
qed

text \<open>Every state with a stored map that the steps reach from a fresh service is ready.\<close>

lemma step_stored_ready:
  assumes "teamStrengths s \<noteq> [] \<longrightarrow> ready s"
  shows "teamStrengths (snd (step ev (ocs, s))) \<noteq> [] \<longrightarrow> ready (snd (step ev (ocs, s)))"
proof (cases ev)
  case (Pair t e)
  show ?thesis
  proof (cases e)
    case Call
    with Pair assms show ?thesis
      by (auto simp: ready_def calculateTeamStrengths_def Let_def split: option.splits)
  next
    case (Settle be)
    show ?thesis
    proof (cases "calculatingTeamStrengths s")
      case None
      with Pair Settle assms show ?thesis by (simp add: settle_def)
    next
      case (Some p)
      show ?thesis
      proof (cases "promises s p = Pending")
        case True
        have "promises (settle be s) p \<noteq> Pending"
          unfolding settle_pending(1)[OF Some True]
          by (simp add: toPromise_def split: sum.splits)
        with settle_pending(3)[OF Some True] Pair Settle show ?thesis
          by (simp add: ready_def)
      next
        case False
        then have "settle be s = s"
          using Some by (simp add: settle_def awaitPromise_def split: promise.splits)
        with Pair Settle assms show ?thesis by simp
      qed
    qed
  next
    case Resume
    with Pair assms show ?thesis
      by (auto simp: ready_def resume_def split: option.splits)
  qed
qed

lemma fold_step_stored_ready:
  assumes "teamStrengths s \<noteq> [] \<longrightarrow> ready s"
  shows "teamStrengths (snd (fold step evs (ocs, s))) \<noteq> []
           \<longrightarrow> ready (snd (fold step evs (ocs, s)))"
  using assms
proof (induction evs arbitrary: ocs s)
  case Nil
  then show ?case by simp
next
  case (Cons ev evs)
  obtain ocs' s' where st: "step ev (ocs, s) = (ocs', s')"
    by (cases "step ev (ocs, s)")
  from step_stored_ready[OF Cons.prems, of ev ocs] st
  have "teamStrengths s' \<noteq> [] \<longrightarrow> ready s'" by simp
  from Cons.IH[OF this, of ocs'] show ?case by (simp add: st)
qed

lemma stored_map_is_ready:
  "teamStrengths (snd (run evs newService)) \<noteq> [] \<Longrightarrow> ready (snd (run evs newService))"
  using fold_step_stored_ready[of newService evs "[]"]
  by (simp add: run_def newService_def)

lemma demo_stored:
  "run [(0, Call), (10, Settle demoBackend), (10, Resume)] newService = ([Awaiting 0], demoReady)"
  by (simp add: run_def calculateTeamStrengths_def settle_def awaitPromise_def newService_def
      demoBackend_def calculateTeamStrengthsImpl_def demoUnderstat_def demoTeams_def
      demoStrengths_def demoReady_def processTeam_def findUnderstatTeam_def understatMapById_def
      understatMapByName_def fplToUnderstatMap_def resume_def toPromise_def Let_def)

text \<open>
  C6, as the specification states it, fails: the service keeps no time stamp and reads no
  clock. The strengths of the example league are stored at clock reading 10; a call a day
  later (reading 86400010, later than a time to live of five minutes or of any length
  below a day would allow) is answered with the stored map, and
  \<open>_calculateTeamStrengths\<close> has still been invoked once.
\<close>

theorem ttl_expiry_counterexample:
  "fst (run [(0, Call), (10, Settle demoBackend), (10, Resume), (86400010, Call)] newService) =
     [Awaiting 0, ReturnedMap demoStrengths]
   \<and> invocations
        (snd (run [(0, Call), (10, Settle demoBackend), (10, Resume), (86400010, Call)]
                newService)) = 1"
  by (simp add: run_def calculateTeamStrengths_def settle_def awaitPromise_def newService_def
      demoBackend_def calculateTeamStrengthsImpl_def demoUnderstat_def demoTeams_def
      demoStrengths_def processTeam_def findUnderstatTeam_def understatMapById_def
      understatMapByName_def fplToUnderstatMap_def resume_def toPromise_def Let_def)

text \<open>
  C6, amended. A ready entry never becomes stale: whatever steps follow, at whatever
  clock readings, every call is answered with the stored map, the map stays as it is and
  no computation is started.
\<close>

theorem ready_entry_never_stale:
  assumes "ready s"
  shows "fst (run evs s) = replicate (length (filter isCall evs)) (ReturnedMap (teamStrengths s))
       \<and> teamStrengths (snd (run evs s)) = teamStrengths s
       \<and> invocations (snd (run evs s)) = invocations s"
  using fold_step_ready[OF assms, of evs "[]"] by (simp add: run_def)

theorem ready_entry_never_stale_witness:
  "ready demoReady
   \<and> fst (run [(86400010, Call)] demoReady) = [ReturnedMap demoStrengths]
   \<and> invocations (snd (run [(86400010, Call)] demoReady)) = 1"
proof -
  have rd: "ready demoReady"
    by (simp add: ready_def demoReady_def newService_def demoStrengths_def)
  show ?thesis
    using ready_entry_never_stale[OF rd, of "[(86400010, Call)]"] rd
    by (simp add: demoReady_def newService_def)
qed

subsection \<open>A failed computation\<close>

text \<open>
  When the failed run has left the map empty, as every failure ahead of the loop does (a
  failed request, an empty Understat answer), the callers receive the error, the starter
  clears the stored promise, the service is idle again and the next call starts a new
  computation.
\<close>

lemma failure_with_empty_map_retried:
  assumes "idle s" and "callers (Suc n) s = (ocs, s1)"
    and "fst (calculateTeamStrengthsImpl (understatResp be) (strengthsBootstrapResp be) s1) = Inl e"
    and "teamStrengths
           (snd (calculateTeamStrengthsImpl (understatResp be) (strengthsBootstrapResp be) s1)) = []"
  shows "step (t, Resume) (ocs, settle be s1) = (ocs, resume (settle be s1))
       \<and> calculatingTeamStrengths (resume (settle be s1)) = None
       \<and> teamStrengths (resume (settle be s1)) = []
       \<and> idle (resume (settle be s1))
       \<and> (\<forall>oc \<in> set ocs. received (settle be s1) oc = Some (Inl e))
       \<and> (\<forall>oc \<in> set ocs. received (resume (settle be s1)) oc = Some (Inl e))
       \<and> fst (calculateTeamStrengths (resume (settle be s1))) = Awaiting (Suc (invocations s))
       \<and> invocations (snd (calculateTeamStrengths (resume (settle be s1)))) =
           Suc (Suc (invocations s))"
proof -
  let ?p = "invocations s"
  from assms(1) have empty: "teamStrengths s = []" "calculatingTeamStrengths s = None"
    by (simp_all add: idle_def)
  from callers_empty[OF empty, of n] assms(2)
  have ocs: "ocs = Awaiting ?p # replicate n (ReturnedPromise ?p)"
    and s1: "s1 = s\<lparr>calculatingTeamStrengths := Some ?p, invocations := Suc ?p,
                    promises := (promises s)(?p := Pending)\<rparr>"
    by simp_all
  have handle: "calculatingTeamStrengths s1 = Some ?p" and pending: "promises s1 ?p = Pending"
    and map1: "teamStrengths s1 = []" and inv1: "invocations s1 = Suc ?p"
    by (simp_all add: s1 empty)
  let ?s2 = "settle be s1"
  have prom2: "promises ?s2 ?p = Rejected e"
    by (simp add: settle_pending(1)[OF handle pending] assms(3) toPromise_def)
  have inv2: "invocations ?s2 = Suc ?p"
    unfolding settle_pending(2)[OF handle pending] by (rule inv1)
  have handle2: "calculatingTeamStrengths ?s2 = Some ?p"
    by (rule settle_pending(3)[OF handle pending])
  have map2: "teamStrengths ?s2 = []"
    unfolding settle_pending(4)[OF handle pending] by (rule assms(4))
  have each: "oc = Awaiting ?p \<or> oc = ReturnedPromise ?p" if "oc \<in> set ocs" for oc
    using that by (auto simp: ocs)
  have r2: "received ?s2 oc = Some (Inl e)" if "oc \<in> set ocs" for oc
    using each[OF that] prom2 by auto
  have r3: "received (resume ?s2) oc = Some (Inl e)" if "oc \<in> set ocs" for oc
    using each[OF that] prom2 by (auto simp: resume_def)
  have st: "step (t, Resume) (ocs, ?s2) = (ocs, resume ?s2)"
    using handle2 prom2 by simp
  have h3: "calculatingTeamStrengths (resume ?s2) = None"
    and m3: "teamStrengths (resume ?s2) = []"
    and i3: "invocations (resume ?s2) = Suc ?p"
    using map2 inv2 by (simp_all add: resume_def)
  have next1: "fst (calculateTeamStrengths (resume ?s2)) = Awaiting (Suc ?p)"
    and next2: "invocations (snd (calculateTeamStrengths (resume ?s2))) = Suc (Suc ?p)"
    using h3 m3 i3 by (simp_all add: calculateTeamStrengths_def Let_def)
  have "idle (resume ?s2)" using h3 m3 by (simp add: idle_def)
  with st h3 m3 r2 r3 next1 next2 show ?thesis by blast
qed

lemma demo_request_failure_retried:
  "idle (resume (settle failingBackend demoInFlight))
   \<and> received (resume (settle failingBackend demoInFlight)) (ReturnedPromise 0) =
       Some (Inl RequestFailed)
   \<and> fst (calculateTeamStrengths (resume (settle failingBackend demoInFlight))) = Awaiting 1"
proof -
  have r: "fst (calculateTeamStrengthsImpl (understatResp failingBackend)
                  (strengthsBootstrapResp failingBackend) demoInFlight) = Inl RequestFailed"
    and m: "teamStrengths (snd (calculateTeamStrengthsImpl (understatResp failingBackend)
                  (strengthsBootstrapResp failingBackend) demoInFlight)) = []"
    by (simp_all add: failingBackend_def calculateTeamStrengthsImpl_def demoInFlight_def
        newService_def)
  show ?thesis
    using failure_with_empty_map_retried[OF demo_idle demo_callers r m, of 0]
    by (simp add: newService_def)
qed

lemma demo_null_team:
  "calculateTeamStrengthsImpl (understatResp nullTeamBackend)
     (strengthsBootstrapResp nullTeamBackend) demoInFlight =
   (Inl TypeError,
    demoInFlight\<lparr>teamStrengths := partialStrengths, console := [ErrorCalculating TypeError]\<rparr>)"
  by (simp add: nullTeamBackend_def demoBackend_def calculateTeamStrengthsImpl_def
      demoInFlight_def newService_def demoUnderstat_def partialStrengths_def processTeam_def
      findUnderstatTeam_def understatMapById_def understatMapByName_def Let_def)

lemma demo_poisoned:
  "resume (settle nullTeamBackend demoInFlight) =
     newService\<lparr>teamStrengths := partialStrengths, invocations := 1,
       promises := (\<lambda>_. Pending)(0 := Rejected TypeError),
       console := [ErrorCalculating TypeError]\<rparr>"
proof -
  have handle: "calculatingTeamStrengths demoInFlight = Some 0"
    and pending: "promises demoInFlight 0 = Pending"
    by (simp_all add: demoInFlight_def)
  have "settle nullTeamBackend demoInFlight =
          demoInFlight\<lparr>teamStrengths := partialStrengths,
            console := [ErrorCalculating TypeError],
            promises := (promises demoInFlight)(0 := Rejected TypeError)\<rparr>"
    unfolding settle_def handle option.case awaitPromise_pending[OF pending] demo_null_team
    by (simp add: toPromise_def)
  then show ?thesis
    by (simp add: resume_def demoInFlight_def newService_def)
qed

text \<open>
  C5 does not hold of the code when the computation fails inside \<open>teams.forEach\<close>. Three
  callers share the computation of a fresh service; the bootstrap answer has \<open>null\<close> for
  its second team, so the loop stores the strength of the first team and throws. All
  three callers receive the \<open>TypeError\<close> and the stored promise is cleared, as the claim
  says; but the map with the one strength stays, the next call is answered with it, and
  whatever steps follow, every call is answered with it and \<open>_calculateTeamStrengths\<close> is
  never invoked a second time.
\<close>

theorem partial_strengths_cached_after_failure:
  "callers (Suc 2) newService =
     ([Awaiting 0, ReturnedPromise 0, ReturnedPromise 0], demoInFlight)
   \<and> received (resume (settle nullTeamBackend demoInFlight)) (Awaiting 0) = Some (Inl TypeError)
   \<and> received (resume (settle nullTeamBackend demoInFlight)) (ReturnedPromise 0) =
       Some (Inl TypeError)
   \<and> calculatingTeamStrengths (resume (settle nullTeamBackend demoInFlight)) = None
   \<and> teamStrengths (resume (settle nullTeamBackend demoInFlight)) = partialStrengths
   \<and> fst (calculateTeamStrengths (resume (settle nullTeamBackend demoInFlight))) =
       ReturnedMap partialStrengths
   \<and> fst (run evs (resume (settle nullTeamBackend demoInFlight))) =
       replicate (length (filter isCall evs)) (ReturnedMap partialStrengths)
   \<and> invocations (snd (run evs (resume (settle nullTeamBackend demoInFlight)))) = 1"
proof -
  let ?s = "resume (settle nullTeamBackend demoInFlight)"
  have rd: "ready ?s"
    by (simp add: demo_poisoned ready_def newService_def partialStrengths_def)
  have ts: "teamStrengths ?s = partialStrengths" and inv: "invocations ?s = 1"
    and h: "calculatingTeamStrengths ?s = None"
    and p: "promises ?s 0 = Rejected TypeError"
    by (simp_all add: demo_poisoned newService_def)
  have nxt: "fst (calculateTeamStrengths ?s) = ReturnedMap partialStrengths"
    using ts by (simp add: calculateTeamStrengths_def partialStrengths_def)
  from fold_step_ready[OF rd, of evs "[]"]
  have later: "fst (run evs ?s) = replicate (length (filter isCall evs)) (ReturnedMap partialStrengths)"
    and never: "invocations (snd (run evs ?s)) = 1"
    by (simp_all add: run_def ts inv)
  from demo_callers p h ts nxt later never show ?thesis by simp
qed

section \<open>Properties of the upcoming fixtures\<close>


lemma fixtureOf_rateFixture: "fixtureOf (rateFixture b fx os t) = fx"
  by (simp add: fixtureOf_def rateFixture_def Let_def)

lemma scoreFixtures_subseq:
  "subseq (map fixtureOf (fst (scoreFixtures b ts teams fs))) fs"
  by (induction fs)
     (auto simp add: scoreFixtures_Cons_fst fixtureOf_rateFixture simp del: scoreFixtures.simps(2)
        split: option.splits)


lemma getTeamUpcomingFixtures_subseq:
  assumes "fixturesCache s = Some allFixtures
           \<or> fixturesCache s = None \<and> fixturesResp be = Inr allFixtures"
  shows "subseq (map fixtureOf (fst (getTeamUpcomingFixtures be s tid (Some count'))))
           (teamFixtures tid count' allFixtures)"
proof -
  let ?s1 = "case fixturesCache s of Some fs \<Rightarrow> s | None \<Rightarrow> s\<lparr>fixturesCache := Some allFixtures\<rparr>"
  let ?fs = "teamFixtures tid count' allFixtures"
  obtain r s2 where calc: "calculateFixtureDifficulty be ?s1 tid ?fs = (r, s2)"
    by (cases "calculateFixtureDifficulty be ?s1 tid ?fs")
  show ?thesis
  proof (cases r)
    case (Inl e)
    with calc assms show ?thesis
      by (auto simp: getTeamUpcomingFixtures_def)
  next
    case (Inr ds)
    with calc have "fst (calculateFixtureDifficulty be ?s1 tid ?fs) = Inr ds" by simp
    from calculateFixtureDifficulty_Inr[OF this] obtain ts teams
      where "ds = fst (scoreFixtures (poolBounds ts) ts teams ?fs)" by blast
    then have "subseq (map fixtureOf ds) ?fs" by (simp add: scoreFixtures_subseq)
    with calc Inr assms show ?thesis
      by (auto simp: getTeamUpcomingFixtures_def)
  qed
qed

lemma getTeamUpcomingFixtures_failed:
  assumes "fixturesCache s = None" and "fixturesResp be = Inl e"
  shows "fst (getTeamUpcomingFixtures be s tid countArg) = []"
  using assms by (simp add: getTeamUpcomingFixtures_def)




















end
